theory Spec2Isabelle
  imports Complex_Main
begin

section \<open>Numerical kernels of msaexp/resample\_numba.py\<close>

text \<open>
  The source computes with IEEE double precision floats under numba's
  \<^verbatim>\<open>fastmath\<close> mode.  The embedding computes with the real numbers: every
  arithmetic operation of the source is the exact operation on \<^typ>\<open>real\<close>,
  \<^verbatim>\<open>np.sqrt\<close> is \<^const>\<open>sqrt\<close>, \<^verbatim>\<open>np.exp\<close> is \<^const>\<open>exp\<close>, a power with
  an integer literal exponent is \<^term>\<open>x ^ n\<close> and a power with a fractional
  exponent is \<^term>\<open>x powr a\<close> (the two agree with Python on a positive base).
  Rounding, overflow, infinities and NaN are outside the model; in particular an
  exponential that underflows to \<^verbatim>\<open>0.0\<close> in the source is a small positive real
  here, so a statement that depends on a value not underflowing is made at inputs
  where the double is far from the underflow threshold, and underflow itself is
  shown by bounding the real value below half of the least positive double.  Arrays are lists,
  array indices are Python integers (\<^typ>\<open>int\<close>).
\<close>

subsection \<open>Arrays, indices and errors\<close>

text \<open>
  The functions are compiled by numba in nopython mode, which does not check array
  bounds: a read outside an array yields whatever the memory holds.  A result that
  depends on such a read, or a write outside an array, is the error
  \<open>IndexOutOfBounds\<close>.  Shapes that numpy cannot broadcast, and the arguments that
  \<^verbatim>\<open>np.interp\<close> rejects, are \<open>ValueError\<close>.
\<close>

datatype error = IndexOutOfBounds | ValueError

definition and_then :: "error + 'a \<Rightarrow> ('a \<Rightarrow> error + 'b) \<Rightarrow> error + 'b" where
  "and_then m f = (case m of Inl e \<Rightarrow> Inl e | Inr v \<Rightarrow> f v)"

definition zeros_like :: "real list \<Rightarrow> real list" where
  "zeros_like x = replicate (length x) 0"

definition ones_like :: "real list \<Rightarrow> real list" where
  "ones_like x = replicate (length x) 1"

text \<open>\<^verbatim>\<open>a[i]\<close> with a Python index: a negative index counts from the end.\<close>

definition py_index :: "nat \<Rightarrow> int \<Rightarrow> int" where
  "py_index n i = (if i < 0 then i + int n else i)"

definition getitem :: "real list \<Rightarrow> int \<Rightarrow> error + real" where
  "getitem a i =
     (let j = py_index (length a) i
      in if 0 \<le> j \<and> j < int (length a) then Inr (a ! nat j) else Inl IndexOutOfBounds)"

definition setitem :: "real list \<Rightarrow> int \<Rightarrow> real \<Rightarrow> error + real list" where
  "setitem a i v =
     (let j = py_index (length a) i
      in if 0 \<le> j \<and> j < int (length a) then Inr (a[nat j := v]) else Inl IndexOutOfBounds)"

text \<open>
  \<^verbatim>\<open>a[lo:hi]\<close>: a slice bound is clipped to the array, a negative one counted from
  the end first; a slice whose upper bound is below its lower bound is empty.
\<close>

definition slice_bound :: "nat \<Rightarrow> int \<Rightarrow> nat" where
  "slice_bound n i = (if i < 0 then nat (max 0 (i + int n)) else min (nat i) n)"

definition getslice :: "real list \<Rightarrow> int \<Rightarrow> int \<Rightarrow> real list" where
  "getslice a lo hi =
     (let l = slice_bound (length a) lo; h = slice_bound (length a) hi
      in take (h - l) (drop l a))"

text \<open>Elementwise operations of two one-dimensional arrays, with numpy's broadcasting.\<close>

definition broadcast2 :: "(real \<Rightarrow> real \<Rightarrow> real) \<Rightarrow> real list \<Rightarrow> real list \<Rightarrow> error + real list" where
  "broadcast2 f a b =
     (if length a = length b then Inr (map2 f a b)
      else if length a = 1 then Inr (map (f (hd a)) b)
      else if length b = 1 then Inr (map (\<lambda>u. f u (hd b)) a)
      else Inl ValueError)"

text \<open>\<^verbatim>\<open>a[lo:hi] = v\<close> for an array \<open>v\<close>.\<close>

definition setslice :: "real list \<Rightarrow> int \<Rightarrow> int \<Rightarrow> real list \<Rightarrow> error + real list" where
  "setslice a lo hi v =
     (let l = slice_bound (length a) lo; h = max l (slice_bound (length a) hi)
      in if length v = h - l then Inr (take l a @ v @ drop h a)
         else if length v = 1 then Inr (take l a @ replicate (h - l) (hd v) @ drop h a)
         else Inl ValueError)"

text \<open>An argument that the source documents as \<^verbatim>\<open>float, array-like\<close>.\<close>

datatype operand = Scalar real | Array "real list"

fun scale :: "real \<Rightarrow> operand \<Rightarrow> operand" where
  "scale k (Scalar s) = Scalar (k * s)"
| "scale k (Array a) = Array (map (\<lambda>u. k * u) a)"

fun times_array :: "operand \<Rightarrow> real list \<Rightarrow> error + real list" where
  "times_array (Scalar s) b = Inr (map (\<lambda>u. s * u) b)"
| "times_array (Array a) b = broadcast2 (*) a b"

text \<open>
  \<^verbatim>\<open>np.trapz(y, x)\<close> and \<^verbatim>\<open>np.interp(x, xp, fp)\<close> are numpy's, not this
  repository's.  They are written out from numpy's documentation: the trapezoidal
  rule \<open>\<Sum> (x[k+1] - x[k]) * (y[k+1] + y[k]) / 2\<close>, and the piecewise linear
  interpolant through the points \<open>(xp, fp)\<close> for increasing \<open>xp\<close>, constant
  beyond the first and the last point.
\<close>

definition diff :: "real list \<Rightarrow> real list" where
  "diff x = map2 (-) (tl x) (butlast x)"

definition trapz :: "real list \<Rightarrow> real list \<Rightarrow> error + real" where
  "trapz y x =
     and_then (broadcast2 (*) (diff x) (map2 (+) (tl y) (butlast y)))
       (\<lambda>p. Inr (sum_list (map (\<lambda>u. u / 2.0) p)))"

fun interp_segments :: "real \<Rightarrow> real list \<Rightarrow> real list \<Rightarrow> real" where
  "interp_segments x (x0 # x1 # xp) (f0 # f1 # fp) =
     (if x < x1 then (f1 - f0) / (x1 - x0) * (x - x0) + f0
      else interp_segments x (x1 # xp) (f1 # fp))"
| "interp_segments x xp fp = last fp"

definition np_interp :: "real \<Rightarrow> real list \<Rightarrow> real list \<Rightarrow> error + real" where
  "np_interp x xp fp =
     (if xp = [] \<or> length fp \<noteq> length xp then Inl ValueError
      else if x > last xp then Inr (last fp)
      else if x < hd xp then Inr (hd fp)
      else Inr (interp_segments x xp fp))"

subsection \<open>compute\_igm: the coefficient tables\<close>

text \<open>
  The rows of \<^verbatim>\<open>_LAF\<close> and \<^verbatim>\<open>_DLA\<close> as written in the source, before the
  transposition \<^verbatim>\<open>.T\<close>; row \<open>k\<close> of the transposed array is column \<open>k\<close> of
  the rows.
\<close>

definition LAF_rows :: "real list list" where
  "LAF_rows = [
    [2, 1215.67, 0.0168976, 0.00235379, 0.000102611],
    [3, 1025.72, 0.00469229, 0.000653625, 0.000028494],
    [4, 972.537, 0.00223898, 0.000311884, 0.0000135962],
    [5, 949.743, 0.00131901, 0.000183735, 0.00000800974],
    [6, 937.803, 0.000870656, 0.00012128, 0.00000528707],
    [7, 930.748, 0.000617843, 0.000086064, 0.00000375186],
    [8, 926.226, 0.000460924, 0.0000642055, 0.00000279897],
    [9, 923.15, 0.000356887, 0.0000497135, 0.0000021672],
    [10, 920.963, 0.000284278, 0.0000395992, 0.00000172628],
    [11, 919.352, 0.000231771, 0.0000322851, 0.00000140743],
    [12, 918.129, 0.000192348, 0.0000267936, 0.00000116804],
    [13, 917.181, 0.000162155, 0.0000225878, 0.000000984689],
    [14, 916.429, 0.000138498, 0.0000192925, 0.000000841033],
    [15, 915.824, 0.000119611, 0.0000166615, 0.00000072634],
    [16, 915.329, 0.000104314, 0.0000145306, 0.000000633446],
    [17, 914.919, 0.0000917397, 0.0000127791, 0.000000557091],
    [18, 914.576, 0.0000812784, 0.0000113219, 0.000000493564],
    [19, 914.286, 0.0000725069, 0.0000101, 0.000000440299],
    [20, 914.039, 0.0000650549, 0.00000906198, 0.000000395047],
    [21, 913.826, 0.0000586816, 0.00000817421, 0.000000356345],
    [22, 913.641, 0.0000531918, 0.00000740949, 0.000000323008],
    [23, 913.48, 0.0000484261, 0.00000674563, 0.000000294068],
    [24, 913.339, 0.000044274, 0.00000616726, 0.000000268854],
    [25, 913.215, 0.0000406311, 0.00000565981, 0.000000246733],
    [26, 913.104, 0.0000373821, 0.00000520723, 0.000000227003],
    [27, 913.006, 0.0000345377, 0.00000481102, 0.000000209731],
    [28, 912.918, 0.0000319891, 0.00000445601, 0.000000194255],
    [29, 912.839, 0.000029711, 0.00000413867, 0.000000180421],
    [30, 912.768, 0.0000276635, 0.00000385346, 0.000000167987],
    [31, 912.703, 0.0000258178, 0.00000359636, 0.000000156779],
    [32, 912.645, 0.0000241479, 0.00000336374, 0.000000146638],
    [33, 912.592, 0.0000226347, 0.00000315296, 0.00000013745],
    [34, 912.543, 0.0000212567, 0.000002961, 0.000000129081],
    [35, 912.499, 0.0000199967, 0.00000278549, 0.00000012143],
    [36, 912.458, 0.0000188476, 0.00000262543, 0.000000114452],
    [37, 912.42, 0.0000177928, 0.0000024785, 0.000000108047],
    [38, 912.385, 0.0000168222, 0.0000023433, 0.000000102153],
    [39, 912.353, 0.0000159286, 0.00000221882, 0.0000000967268],
    [40, 912.324, 0.0000150996, 0.00000210334, 0.0000000916925]
  ]"

definition DLA_rows :: "real list list" where
  "DLA_rows = [
    [2, 1215.67, 0.000161698, 0.0000538995],
    [3, 1025.72, 0.000154539, 0.0000515129],
    [4, 972.537, 0.000149767, 0.0000499222],
    [5, 949.743, 0.000146031, 0.0000486769],
    [6, 937.803, 0.000142893, 0.0000476312],
    [7, 930.748, 0.000140159, 0.0000467196],
    [8, 926.226, 0.000137714, 0.0000459048],
    [9, 923.15, 0.000135495, 0.000045165],
    [10, 920.963, 0.000133452, 0.0000444841],
    [11, 919.352, 0.000131561, 0.0000438536],
    [12, 918.129, 0.000129785, 0.0000432617],
    [13, 917.181, 0.000128117, 0.0000427056],
    [14, 916.429, 0.00012654, 0.0000421799],
    [15, 915.824, 0.000125041, 0.0000416804],
    [16, 915.329, 0.000123614, 0.0000412046],
    [17, 914.919, 0.000122248, 0.0000407494],
    [18, 914.576, 0.000120938, 0.0000403127],
    [19, 914.286, 0.000119681, 0.0000398938],
    [20, 914.039, 0.000118469, 0.0000394896],
    [21, 913.826, 0.000117298, 0.0000390995],
    [22, 913.641, 0.000116167, 0.0000387225],
    [23, 913.48, 0.000115071, 0.0000383572],
    [24, 913.339, 0.000114011, 0.0000380037],
    [25, 913.215, 0.000112983, 0.0000376609],
    [26, 913.104, 0.000111972, 0.0000373241],
    [27, 913.006, 0.000111002, 0.0000370005],
    [28, 912.918, 0.000110051, 0.0000366836],
    [29, 912.839, 0.000109125, 0.0000363749],
    [30, 912.768, 0.00010822, 0.0000360734],
    [31, 912.703, 0.000107337, 0.0000357789],
    [32, 912.645, 0.000106473, 0.0000354909],
    [33, 912.592, 0.000105629, 0.0000352096],
    [34, 912.543, 0.000104802, 0.000034934],
    [35, 912.499, 0.000103991, 0.0000346636],
    [36, 912.458, 0.000103198, 0.0000343994],
    [37, 912.42, 0.00010242, 0.0000341402],
    [38, 912.385, 0.000101657, 0.0000338856],
    [39, 912.353, 0.000100908, 0.0000336359],
    [40, 912.324, 0.000100168, 0.0000333895]
  ]"

definition column :: "nat \<Rightarrow> real list list \<Rightarrow> real list" where
  "column k rows = map (\<lambda>r. r ! k) rows"

definition ALAM :: "real list" where "ALAM = column 1 LAF_rows"
definition ALAF1 :: "real list" where "ALAF1 = column 2 LAF_rows"
definition ALAF2 :: "real list" where "ALAF2 = column 3 LAF_rows"
definition ALAF3 :: "real list" where "ALAF3 = column 4 LAF_rows"
definition ADLA1 :: "real list" where "ADLA1 = column 2 DLA_rows"
definition ADLA2 :: "real list" where "ADLA2 = column 3 DLA_rows"

definition z1LAF :: real where "z1LAF = 1.2"
definition z2LAF :: real where "z2LAF = 4.7"
definition z1DLA :: real where "z1DLA = 2.0"
definition lamL :: real where "lamL = 911.8"

subsection \<open>compute\_igm: the optical depth of one wavelength\<close>

text \<open>
  One pass of the loop over the Lyman series (\<^verbatim>\<open>for j, lsj in enumerate(ALAM)\<close>):
  the value of \<^verbatim>\<open>tau[i]\<close> after row \<open>j\<close>, from its value \<open>tau\<close> before.
\<close>

definition lyman_series_row :: "real \<Rightarrow> real \<Rightarrow> nat \<Rightarrow> real \<Rightarrow> real" where
  "lyman_series_row zS wi j tau =
     (let lsj = ALAM ! j;
          tau1 =
            (if wi < lsj * (1 + zS) then
               (if wi < lsj * (1 + z1LAF) then
                  tau + ALAF1 ! j * (wi / lsj) powr 1.2
                else if (wi \<ge> lsj * (1 + z1LAF)) \<and> (wi < lsj * (1 + z2LAF)) then
                  tau + ALAF2 ! j * (wi / lsj) powr 3.7
                else
                  tau + ALAF3 ! j * (wi / lsj) powr 5.5)
             else tau)
      in (if wi < lsj * (1 + zS) then
            (if wi < lsj * (1.0 + z1DLA) then
               tau1 + ADLA1 ! j * (wi / lsj) ^ 2
             else
               tau1 + ADLA2 ! j * (wi / lsj) ^ 3)
          else tau1))"

definition lyman_series :: "real \<Rightarrow> real \<Rightarrow> real \<Rightarrow> real" where
  "lyman_series zS wi tau = fold (lyman_series_row zS wi) [0..<length ALAM] tau"

text \<open>The Lyman continuum block: the damped systems first, then the forest.\<close>

definition lyman_continuum_DLA :: "real \<Rightarrow> real \<Rightarrow> real \<Rightarrow> real" where
  "lyman_continuum_DLA zS wi tau =
     (if zS < z1DLA then
        tau + (0.2113 * (1 + zS) ^ 2
               - 0.07661 * (1 + zS) powr 2.3 * (wi / lamL) powr (- 0.3)
               - 0.1347 * (wi / lamL) ^ 2)
      else if wi \<ge> lamL * (1 + z1DLA) then
        tau + (0.04696 * (1 + zS) ^ 3
               - 0.01779 * (1 + zS) powr 3.3 * (wi / lamL) powr (- 0.3)
               - 0.02916 * (wi / lamL) ^ 3)
      else
        tau + (0.6340
               + 0.04696 * (1 + zS) ^ 3
               - 0.01779 * (1 + zS) powr 3.3 * (wi / lamL) powr (- 0.3)
               - 0.1347 * (wi / lamL) ^ 2
               - 0.2905 * (wi / lamL) powr (- 0.3)))"

definition lyman_continuum_LAF :: "real \<Rightarrow> real \<Rightarrow> real \<Rightarrow> real" where
  "lyman_continuum_LAF zS wi tau =
     (if zS < z1LAF then
        tau + 0.3248 * ((wi / lamL) powr 1.2
                        - (1 + zS) powr (- 0.9) * (wi / lamL) powr 2.1)
      else if zS < z2LAF then
        (if wi \<ge> lamL * (1 + z1LAF) then
           tau + 0.02545 * ((1 + zS) powr 1.6 * (wi / lamL) powr 2.1
                            - (wi / lamL) powr 3.7)
         else
           tau + (0.02545 * (1 + zS) powr 1.6 * (wi / lamL) powr 2.1
                  + 0.3248 * (wi / lamL) powr 1.2
                  - 0.2496 * (wi / lamL) powr 2.1))
      else
        (if wi > lamL * (1.0 + z2LAF) then
           tau + 0.0005221 * ((1 + zS) powr 3.4 * (wi / lamL) powr 2.1
                              - (wi / lamL) powr 5.5)
         else if (wi \<ge> lamL * (1 + z1LAF)) \<and> (wi < lamL * (1 + z2LAF)) then
           tau + (0.0005221 * (1 + zS) powr 3.4 * (wi / lamL) powr 2.1
                  + 0.2182 * (wi / lamL) powr 2.1
                  - 0.02545 * (wi / lamL) powr 3.7)
         else if wi < lamL * (1 + z1LAF) then
           tau + (0.0005221 * (1 + zS) powr 3.4 * (wi / lamL) powr 2.1
                  + 0.3248 * (wi / lamL) powr 1.2
                  - 0.0314 * (wi / lamL) powr 2.1)
         else tau))"

definition lyman_continuum :: "real \<Rightarrow> real \<Rightarrow> real \<Rightarrow> real" where
  "lyman_continuum zS wi tau =
     (if wi < lamL * (1 + zS) then
        lyman_continuum_LAF zS wi (lyman_continuum_DLA zS wi tau)
      else tau)"

text \<open>
  The body of the loop over the wavelengths, as a function of the value \<open>tau\<close> that
  \<^verbatim>\<open>tau[i]\<close> holds on entry; \<^verbatim>\<open>continue\<close> leaves it as it is.
\<close>

definition igm_pixel :: "real \<Rightarrow> real \<Rightarrow> real \<Rightarrow> real" where
  "igm_pixel zS wi tau =
     (if wi > 1300.0 * (1 + zS) then tau
      else lyman_continuum zS wi (lyman_series zS wi tau))"

definition igm_tau :: "real \<Rightarrow> real list \<Rightarrow> real list" where
  "igm_tau z wobs =
     fold (\<lambda>(i, wi) tau. tau[i := igm_pixel z wi (tau ! i)])
          (enumerate 0 wobs) (zeros_like wobs)"

definition compute_igm :: "real \<Rightarrow> real list \<Rightarrow> real \<Rightarrow> real list" where
  "compute_igm z wobs scale_tau = map (\<lambda>t. exp (- scale_tau * t)) (igm_tau z wobs)"

subsection \<open>pixel\_integrated\_gaussian\_numba\<close>

text \<open>
  The pixel widths when \<^verbatim>\<open>dx is None\<close>:
  \<^verbatim>\<open>xdx = np.ones_like(x); xdx[1:-1] = (x[2:] - x[:-2]) / 2.0;
  xdx[0] = x[1] - x[0]; xdx[-1] = x[-1] - x[-2]\<close>.
\<close>

definition gradient_widths :: "real list \<Rightarrow> error + real list" where
  "gradient_widths x =
     and_then (broadcast2 (-) (getslice x 2 (int (length x))) (getslice x 0 (- 2))) (\<lambda>d.
     and_then (setslice (ones_like x) 1 (- 1) (map (\<lambda>u. u / 2.0) d)) (\<lambda>xdx1.
     and_then (getitem x 1) (\<lambda>x1.
     and_then (getitem x 0) (\<lambda>x0.
     and_then (setitem xdx1 0 (x1 - x0)) (\<lambda>xdx2.
     and_then (getitem x (- 1)) (\<lambda>xl.
     and_then (getitem x (- 2)) (\<lambda>xk.
     setitem xdx2 (- 1) (xl - xk))))))))"

text \<open>
  \<^verbatim>\<open>math.erf\<close> is the C library's error function, here the error function on
  the reals by its Maclaurin series.
\<close>

definition erf :: "real \<Rightarrow> real" where
  "erf x = 2 / sqrt pi * (\<Sum>n. (- 1) ^ n * x ^ (2 * n + 1) / (fact n * real (2 * n + 1)))"

text \<open>The value stored in \<^verbatim>\<open>samp[i]\<close>.\<close>

definition sample_value ::
  "real list \<Rightarrow> real list \<Rightarrow> real list \<Rightarrow> real list \<Rightarrow> real \<Rightarrow> nat
     \<Rightarrow> error + real" where
  "sample_value x mux s2dw xdx normalization i =
     and_then (getitem x (int i)) (\<lambda>xi.
     and_then (getitem mux (int i)) (\<lambda>mi.
     and_then (getitem xdx (int i)) (\<lambda>di.
     and_then (getitem s2dw (int i)) (\<lambda>si.
       let x0 = xi - mi;
           left = erf ((x0 - di / 2) / si);
           right = erf ((x0 + di / 2) / si)
       in Inr ((right - left) / 2 / di * normalization)))))"

fun sample_loop :: "(nat \<Rightarrow> error + real) \<Rightarrow> nat list \<Rightarrow> real list \<Rightarrow> error + real list" where
  "sample_loop f [] samp = Inr samp"
| "sample_loop f (i # rest) samp =
     (case f i of
        Inl e \<Rightarrow> Inl e
      | Inr v \<Rightarrow>
          (case setitem samp (int i) v of
             Inl e \<Rightarrow> Inl e
           | Inr samp' \<Rightarrow> sample_loop f rest samp'))"

text \<open>The array \<^verbatim>\<open>xdx\<close>: the widths derived from \<open>x\<close>, or the argument \<^verbatim>\<open>dx\<close>.\<close>

definition pixel_widths :: "real list \<Rightarrow> operand option \<Rightarrow> error + real list" where
  "pixel_widths x dx =
     (case dx of
        None \<Rightarrow> gradient_widths x
      | Some d \<Rightarrow> times_array d (ones_like x))"

definition pixel_integrated_gaussian_numba ::
  "real list \<Rightarrow> operand \<Rightarrow> operand \<Rightarrow> operand option \<Rightarrow> real
     \<Rightarrow> error + real list" where
  "pixel_integrated_gaussian_numba x mu sigma dx normalization =
     (let N = length x;
          samp = zeros_like x
      in and_then (times_array (scale (sqrt 2) sigma) (ones_like x)) (\<lambda>s2dw.
         and_then (times_array mu (ones_like x)) (\<lambda>mux.
         and_then (pixel_widths x dx) (\<lambda>xdx.
         and_then (sample_value x mux s2dw xdx normalization 0) (\<lambda>v.
         and_then (setitem samp 0 v) (\<lambda>samp0.
         sample_loop (sample_value x mux s2dw xdx normalization) [1..<N] samp0))))))"

subsection \<open>sample\_gaussian\_line\_numba\<close>

text \<open>The local \<^verbatim>\<open>dw\<close> of the line sampler.\<close>

definition line_width :: "real list \<Rightarrow> real list \<Rightarrow> real \<Rightarrow> real \<Rightarrow> error + real" where
  "line_width spec_wobs spec_R_fwhm line_um velocity_sigma =
     and_then (np_interp line_um spec_wobs spec_R_fwhm) (\<lambda>Rw.
       Inr (sqrt ((velocity_sigma / 300000) ^ 2 + (1.0 / 2.35 / Rw) ^ 2) * line_um))"

definition sample_gaussian_line_numba ::
  "real list \<Rightarrow> real list \<Rightarrow> real \<Rightarrow> real \<Rightarrow> real \<Rightarrow> error + real list" where
  "sample_gaussian_line_numba spec_wobs spec_R_fwhm line_um line_flux velocity_sigma =
     and_then (line_width spec_wobs spec_R_fwhm line_um velocity_sigma) (\<lambda>dw.
       pixel_integrated_gaussian_numba spec_wobs (Scalar line_um) (Scalar dw) None line_flux)"

subsection \<open>resample\_template\_numba\<close>

text \<open>The array \<^verbatim>\<open>dw\<close> of the resampler, one kernel width per pixel of the spectrum.\<close>

definition kernel_widths :: "real list \<Rightarrow> real list \<Rightarrow> real \<Rightarrow> error + real list" where
  "kernel_widths spec_wobs spec_R_fwhm velocity_sigma =
     broadcast2 (*)
       (map (\<lambda>R. sqrt ((velocity_sigma / 300000) ^ 2 + (1.0 / 2.35 / R) ^ 2)) spec_R_fwhm)
       spec_wobs"

text \<open>
  The two \<^verbatim>\<open>while\<close> loops.  The operator \<^verbatim>\<open>&\<close> evaluates both operands: when
  the index has reached its bound the array is read all the same, one element past
  the end in the second loop, and the comparison with the bound alone decides the
  conjunction.  In HOL the element read there is an unspecified real and the
  conjunction is false, as in the source.
\<close>

function advance_ilo :: "real list \<Rightarrow> real \<Rightarrow> int \<Rightarrow> int" where
  "advance_ilo templ_wobs edge ilo =
     (if (templ_wobs ! nat ilo < edge) \<and> (ilo < int (length templ_wobs) - 1)
      then advance_ilo templ_wobs edge (ilo + 1)
      else ilo)"
  by pat_completeness auto
termination
  by (relation "measure (\<lambda>(t, edge, ilo). nat (int (length t) - 1 - ilo))") auto

function advance_ihi :: "real list \<Rightarrow> real \<Rightarrow> int \<Rightarrow> int" where
  "advance_ihi templ_wobs edge ihi =
     (if (templ_wobs ! nat ihi < edge) \<and> (ihi < int (length templ_wobs))
      then advance_ihi templ_wobs edge (ihi + 1)
      else ihi)"
  by pat_completeness auto
termination
  by (relation "measure (\<lambda>(t, edge, ihi). nat (int (length t) - ihi))") auto

declare advance_ilo.simps [simp del]
declare advance_ihi.simps [simp del]

text \<open>The variables that the loop over the pixels carries from one pixel to the next.\<close>

record window =
  ilo :: int
  ihi :: int
  resamp :: "real list"

datatype 'a flow = Next 'a | Break 'a

text \<open>
  The first part of the loop body, up to and including \<^verbatim>\<open>ilo -= 1\<close>: the state
  after the back-step, or \<open>None\<close> when \<^verbatim>\<open>ilo == 0\<close> sends the loop to the next
  pixel.
\<close>

definition lower_window :: "real list \<Rightarrow> real \<Rightarrow> window \<Rightarrow> window option" where
  "lower_window templ_wobs edge s =
     (let ilo1 = advance_ilo templ_wobs edge (ilo s)
      in if ilo1 = 0 then None else Some (s\<lparr>ilo := ilo1 - 1\<rparr>))"

text \<open>The Gaussian weights \<^verbatim>\<open>g\<close> on the slice \<^verbatim>\<open>lsl\<close> of the template.\<close>

definition gaussian_weights :: "real list \<Rightarrow> real \<Rightarrow> real \<Rightarrow> real list" where
  "gaussian_weights lsl w d =
     map (\<lambda>l. exp (- ((l - w) ^ 2) / 2 / d ^ 2) / sqrt (2 * pi * d ^ 2)) lsl"

text \<open>The rest of the loop body, from the state after the back-step.\<close>

definition upper_window ::
  "real list \<Rightarrow> real list \<Rightarrow> real \<Rightarrow> real \<Rightarrow> real \<Rightarrow> nat \<Rightarrow> window \<Rightarrow> error + window flow" where
  "upper_window templ_wobs templ_flux edge w d i s =
     (let Nt = int (length templ_wobs);
          ihi1 = advance_ihi templ_wobs edge (ihi s);
          s1 = s\<lparr>ihi := ihi1\<rparr>
      in if ilo s1 \<ge> ihi1 then
           and_then (getitem templ_flux ihi1) (\<lambda>v.
           and_then (setitem (resamp s1) (int i) v) (\<lambda>r.
             Inr (Next (s1\<lparr>resamp := r\<rparr>))))
         else if ilo s1 = Nt - 1 then Inr (Break s1)
         else
           (let lsl = getslice templ_wobs (ilo s1) ihi1;
                g = gaussian_weights lsl w d
            in and_then (broadcast2 (*) (getslice templ_flux (ilo s1) ihi1) g) (\<lambda>y.
               and_then (trapz y lsl) (\<lambda>v.
               and_then (setitem (resamp s1) (int i) v) (\<lambda>r.
                 Inr (Next (s1\<lparr>resamp := r\<rparr>)))))))"

definition pixel_body ::
  "real list \<Rightarrow> real list \<Rightarrow> real list \<Rightarrow> real list \<Rightarrow> real \<Rightarrow> nat \<Rightarrow> window
     \<Rightarrow> error + window flow" where
  "pixel_body spec_wobs dw templ_wobs templ_flux nsig i s =
     and_then (getitem spec_wobs (int i)) (\<lambda>w.
     and_then (getitem dw (int i)) (\<lambda>d.
       case lower_window templ_wobs (w - nsig * d) s of
         None \<Rightarrow> Inr (Next (s\<lparr>ilo := 0\<rparr>))
       | Some s1 \<Rightarrow> upper_window templ_wobs templ_flux (w + nsig * d) w d i s1))"

fun run_pixels :: "(nat \<Rightarrow> window \<Rightarrow> error + window flow) \<Rightarrow> nat list \<Rightarrow> window \<Rightarrow> error + window" where
  "run_pixels body [] s = Inr s"
| "run_pixels body (i # rest) s =
     (case body i s of
        Inl e \<Rightarrow> Inl e
      | Inr (Break s') \<Rightarrow> Inr s'
      | Inr (Next s') \<Rightarrow> run_pixels body rest s')"

definition initial_window :: "real list \<Rightarrow> real \<Rightarrow> window" where
  "initial_window spec_wobs fill_value =
     \<lparr>ilo = 0, ihi = 1, resamp = map (\<lambda>u. u * fill_value) (zeros_like spec_wobs)\<rparr>"

definition resample_template_numba ::
  "real list \<Rightarrow> real list \<Rightarrow> real list \<Rightarrow> real list \<Rightarrow> real \<Rightarrow> real \<Rightarrow> real \<Rightarrow> error + real list" where
  "resample_template_numba spec_wobs spec_R_fwhm templ_wobs templ_flux velocity_sigma nsig fill_value =
     and_then (kernel_widths spec_wobs spec_R_fwhm velocity_sigma) (\<lambda>dw.
       let N = length spec_wobs
       in and_then
            (run_pixels (pixel_body spec_wobs dw templ_wobs templ_flux nsig) [0..<N]
               (initial_window spec_wobs fill_value))
            (\<lambda>s. Inr (resamp s)))"

text \<open>
  The states in which the loop over the pixels begins its iterations: \<open>s0\<close> begins
  iteration \<open>0\<close>, and the state that a body leaves without \<^verbatim>\<open>break\<close> begins the
  next iteration.
\<close>

inductive iteration_start ::
  "(nat \<Rightarrow> window \<Rightarrow> error + window flow) \<Rightarrow> window \<Rightarrow> nat \<Rightarrow> window \<Rightarrow> bool"
  for body :: "nat \<Rightarrow> window \<Rightarrow> error + window flow" and s0 :: window where
  first: "iteration_start body s0 0 s0"
| following: "iteration_start body s0 k s \<Longrightarrow> body k s = Inr (Next s') \<Longrightarrow>
     iteration_start body s0 (Suc k) s'"

text \<open>
  The range of the two indices into a template of \<open>Nt\<close> samples at the beginning
  of an iteration.
\<close>

definition window_ok :: "nat \<Rightarrow> window \<Rightarrow> bool" where
  "window_ok Nt s \<longleftrightarrow> 0 \<le> ilo s \<and> ilo s \<le> int Nt - 1 \<and> 1 \<le> ihi s \<and> ihi s \<le> int Nt"

subsection \<open>The Lyman series terms as the specification words them\<close>

text \<open>
  The term of row \<open>j\<close> for the Lyman-alpha forest and for the damped systems, with
  the thresholds \<open>1 + 1.2\<close>, \<open>1 + 4.7\<close> and \<open>1 + 2.0\<close> and the exponents of the
  specification; no term is the value \<open>0\<close>.
\<close>

definition laf_term_spec :: "real \<Rightarrow> real \<Rightarrow> nat \<Rightarrow> real" where
  "laf_term_spec z wi j =
     (let lam = ALAM ! j in
      if wi < lam * (1 + z) then
        (if wi < lam * (1 + 1.2) then ALAF1 ! j * (wi / lam) powr 1.2
         else if lam * (1 + 1.2) \<le> wi \<and> wi < lam * (1 + 4.7) then ALAF2 ! j * (wi / lam) powr 3.7
         else ALAF3 ! j * (wi / lam) powr 5.5)
      else 0)"

definition dla_term_spec :: "real \<Rightarrow> real \<Rightarrow> nat \<Rightarrow> real" where
  "dla_term_spec z wi j =
     (let lam = ALAM ! j in
      if wi < lam * (1 + z) then
        (if wi < lam * (1 + 2.0) then ADLA1 ! j * (wi / lam) ^ 2
         else ADLA2 ! j * (wi / lam) ^ 3)
      else 0)"

subsection \<open>Reading an argument that is a number or an array\<close>

text \<open>
  The entry \<open>i\<close> of an argument, a scalar standing for an array that holds it at
  every index, and the arguments whose shape is that of an array of \<open>n\<close> entries.
\<close>

fun operand_at :: "operand \<Rightarrow> nat \<Rightarrow> real" where
  "operand_at (Scalar s) i = s"
| "operand_at (Array a) i = a ! i"

fun operand_fits :: "operand \<Rightarrow> nat \<Rightarrow> bool" where
  "operand_fits (Scalar s) n = True"
| "operand_fits (Array a) n = (length a = n)"

subsection \<open>The pixel-integrated Gaussian as the specification words it\<close>

text \<open>
  The value of one sample: \<open>x0 = x[i] - mu\<close>, and the difference of the error
  function at the two edges of the pixel over \<open>sqrt 2 * sigma[i]\<close>, halved, divided
  by the pixel width and scaled.
\<close>

definition pixel_formula ::
  "real \<Rightarrow> real \<Rightarrow> real \<Rightarrow> real \<Rightarrow> real \<Rightarrow> real" where
  "pixel_formula xi mu sigma dxi normalization =
     (let x0 = xi - mu
      in (erf ((x0 + dxi / 2) / (sqrt 2 * sigma)) - erf ((x0 - dxi / 2) / (sqrt 2 * sigma)))
           / 2 / dxi * normalization)"

subsection \<open>The kernel width as the specification words it\<close>

text \<open>
  \<open>dw = wavelength * sqrt ((velocity_sigma / c_km_s)\<^sup>2 + (1 / (2.35 R))\<^sup>2)\<close>, with
  the speed of light \<open>c_km_s\<close> as a parameter.
\<close>

definition kernel_width_spec :: "real \<Rightarrow> real \<Rightarrow> real \<Rightarrow> real \<Rightarrow> real" where
  "kernel_width_spec c_km_s wavelength velocity_sigma R =
     wavelength * sqrt ((velocity_sigma / c_km_s) ^ 2 + (1 / (2.35 * R)) ^ 2)"

section \<open>Properties of compute\_igm\<close>


lemma fold_enumerate_update:
  "n + length xs \<le> length tau \<Longrightarrow>
   fold (\<lambda>(i, wi) tau. tau[i := f wi (tau ! i)]) (enumerate n xs) tau
     = take n tau @ map2 f xs (take (length xs) (drop n tau)) @ drop (n + length xs) tau"
proof (induction xs arbitrary: n tau)
  case Nil
  then show ?case by simp
next
  case (Cons x xs)
  have "n < length tau" using Cons.prems by simp
  then obtain a b t where tau: "tau = a @ t # b" and a: "length a = n"
    by (metis id_take_nth_drop length_take min.absorb2 less_imp_le)
  show ?case using Cons.prems Cons.IH[of "Suc n" "a @ f x t # b"] a
    by (simp add: tau nth_append list_update_append)
qed

lemma igm_tau_map: "igm_tau z wobs = map (\<lambda>wi. igm_pixel z wi 0) wobs"
  unfolding igm_tau_def zeros_like_def
  by (subst fold_enumerate_update) (simp_all add: map_replicate_const zip_replicate2 map_idI flip: map_fst_zip)

lemma length_tables:
  "length ALAM = 39" "length ALAF1 = 39" "length ALAF2 = 39" "length ALAF3 = 39"
  "length ADLA1 = 39" "length ADLA2 = 39"
  by (simp_all add: ALAM_def ALAF1_def ALAF2_def ALAF3_def ADLA1_def ADLA2_def column_def LAF_rows_def DLA_rows_def)

lemma ALAM_bounds: "\<forall>x \<in> set ALAM. 912 < x \<and> x < 1216"
  by (simp add: ALAM_def column_def LAF_rows_def)

lemma ALAF_bounds:
  "\<forall>x \<in> set ALAF1. 0 < x \<and> x < 0.017"
  "\<forall>x \<in> set ALAF2. 0 < x \<and> x < 0.017"
  "\<forall>x \<in> set ALAF3. 0 < x \<and> x < 0.017"
  by (simp_all add: ALAF1_def ALAF2_def ALAF3_def column_def LAF_rows_def)

lemma ADLA_bounds:
  "\<forall>x \<in> set ADLA1. 0 < x \<and> x < 0.001"
  "\<forall>x \<in> set ADLA2. 0 < x \<and> x < 0.001"
  by (simp_all add: ADLA1_def ADLA2_def column_def DLA_rows_def)


lemma lyman_series_row_spec:
  "lyman_series_row z wi j tau = tau + laf_term_spec z wi j + dla_term_spec z wi j"
  by (simp add: lyman_series_row_def laf_term_spec_def dla_term_spec_def Let_def
        z1LAF_def z2LAF_def z1DLA_def)

lemma fold_add_terms:
  "(\<And>j t. f j t = t + g j) \<Longrightarrow> fold f js (t::real) = t + sum_list (map g js)"
  by (induction js arbitrary: t) simp_all

lemma lyman_series_sum:
  "lyman_series z wi tau =
     tau + (\<Sum>j<length ALAM. laf_term_spec z wi j + dla_term_spec z wi j)"
proof -
  have "lyman_series z wi tau =
      tau + sum_list (map (\<lambda>j. laf_term_spec z wi j + dla_term_spec z wi j) [0..<length ALAM])"
    unfolding lyman_series_def
    by (rule fold_add_terms) (simp add: lyman_series_row_spec)
  then show ?thesis
    by (simp add: interv_sum_list_conv_sum_set_nat atLeast0LessThan)
qed

text \<open>
  C5: for a wavelength \<open>wi \<le> 1300 (1 + z)\<close>, every row \<open>j\<close> of the table adds to
  \<open>tau[i]\<close> the forest term and the damped term of the specification: a term exactly
  when \<open>wi < \<lambda>j (1 + z)\<close>, the forest term with exponent 1.2, 3.7 or 5.5 by the
  position of \<open>wi\<close> against \<open>\<lambda>j (1 + 1.2)\<close> and \<open>\<lambda>j (1 + 4.7)\<close>, the damped term
  with exponent 2 or 3 by its position against \<open>\<lambda>j (1 + 2.0)\<close>, each scaled by the
  coefficient of the row; the optical depth is the Lyman continuum block applied to
  the sum of these terms over the rows.
\<close>

theorem lyman_series_terms:
  "wi \<le> 1300 * (1 + z) \<Longrightarrow>
     (\<forall>j tau. lyman_series_row z wi j tau = tau + laf_term_spec z wi j + dla_term_spec z wi j) \<and>
     igm_pixel z wi 0 =
       lyman_continuum z wi (\<Sum>j<length ALAM. laf_term_spec z wi j + dla_term_spec z wi j)"
  by (simp add: igm_pixel_def lyman_series_sum lyman_series_row_spec)

lemma lyman_continuum_DLA_add:
  "lyman_continuum_DLA z wi tau = tau + lyman_continuum_DLA z wi 0"
  by (simp add: lyman_continuum_DLA_def)

lemma lyman_continuum_LAF_add:
  "lyman_continuum_LAF z wi tau = tau + lyman_continuum_LAF z wi 0"
  by (simp add: lyman_continuum_LAF_def)

lemma igm_pixel_sum:
  "igm_pixel z wi 0 =
     (if wi > 1300 * (1 + z) then 0
      else (\<Sum>j<length ALAM. laf_term_spec z wi j + dla_term_spec z wi j)
           + (if wi < lamL * (1 + z)
              then lyman_continuum_DLA z wi 0 + lyman_continuum_LAF z wi 0 else 0))"
  unfolding igm_pixel_def lyman_continuum_def lyman_series_sum
  by (subst lyman_continuum_LAF_add, subst lyman_continuum_DLA_add) simp

lemma ALAM_tail: "\<forall>x \<in> set (tl ALAM). x < 1026"
  by (simp add: ALAM_def column_def LAF_rows_def)

lemma ALAM_nth_tail: "1 \<le> j \<Longrightarrow> j < length ALAM \<Longrightarrow> ALAM ! j < 1026"
proof -
  assume j: "1 \<le> j" "j < length ALAM"
  then have "ALAM ! j = tl ALAM ! (j - 1)" by (simp add: nth_tl)
  moreover have "tl ALAM ! (j - 1) \<in> set (tl ALAM)" using j by (intro nth_mem) simp
  ultimately show ?thesis using ALAM_tail by simp
qed

lemma lyman_series_4500:
  "(\<Sum>j<length ALAM. laf_term_spec 3 4500 j + dla_term_spec 3 4500 j)
     = 0.00235379 * (4500 / 1215.67) powr 3.7 + 0.0000538995 * (4500 / 1215.67) ^ 3"
proof -
  have z: "laf_term_spec 3 4500 j + dla_term_spec 3 4500 j = 0" if "1 \<le> j" "j < length ALAM" for j
    using ALAM_nth_tail[OF that] by (simp add: laf_term_spec_def dla_term_spec_def)
  have "(\<Sum>j<length ALAM. laf_term_spec 3 4500 j + dla_term_spec 3 4500 j)
      = (\<Sum>j\<in>{0}. laf_term_spec 3 4500 j + dla_term_spec 3 4500 j)"
    by (rule sum.mono_neutral_right) (auto simp: length_tables intro!: z)
  also have "\<dots> = 0.00235379 * (4500 / 1215.67) powr 3.7 + 0.0000538995 * (4500 / 1215.67) ^ 3"
    by (simp add: laf_term_spec_def dla_term_spec_def ALAM_def ALAF2_def ADLA2_def
          column_def LAF_rows_def DLA_rows_def)
  finally show ?thesis .
qed

text \<open>
  C8: the result holds \<open>exp (- scale_tau * tau[i])\<close> at every index \<open>i\<close>.  Where
  \<open>wobs[i] > 1300 (1 + z)\<close> nothing is accumulated: \<open>tau[i] = 0\<close> and the
  transmission is exactly \<open>1\<close>.  Elsewhere \<open>tau[i]\<close> is the sum of what the blocks
  add to it: the forest and the damped term of every row of the table, and, where
  \<open>wobs[i] < 911.8 (1 + z)\<close>, the term of the damped continuum block and the term of
  the forest continuum block.
\<close>

theorem compute_igm_transmission:
  "length (compute_igm z wobs scale_tau) = length wobs \<and>
   (\<forall>i<length wobs.
      compute_igm z wobs scale_tau ! i = exp (- scale_tau * igm_tau z wobs ! i) \<and>
      (wobs ! i > 1300 * (1 + z) \<longrightarrow>
         igm_tau z wobs ! i = 0 \<and> compute_igm z wobs scale_tau ! i = 1) \<and>
      (wobs ! i \<le> 1300 * (1 + z) \<longrightarrow>
         igm_tau z wobs ! i =
           (\<Sum>j<length ALAM. laf_term_spec z (wobs ! i) j + dla_term_spec z (wobs ! i) j)
           + (if wobs ! i < lamL * (1 + z)
              then lyman_continuum_DLA z (wobs ! i) 0 + lyman_continuum_LAF z (wobs ! i) 0
              else 0)))"
  by (simp add: compute_igm_def igm_tau_map igm_pixel_sum)

theorem compute_igm_transmission_witness:
  "(2::nat) < length [3000, 4500, 6000 :: real] \<and>
   [3000, 4500, 6000 :: real] ! 0 \<le> 1300 * (1 + 3) \<and>
   [3000, 4500, 6000 :: real] ! 1 \<le> 1300 * (1 + 3) \<and>
   [3000, 4500, 6000 :: real] ! 2 > 1300 * (1 + 3) \<and>
   igm_tau 3 [3000, 4500, 6000] ! 0
     = (\<Sum>j<length ALAM. laf_term_spec 3 3000 j + dla_term_spec 3 3000 j)
       + (0.04696 * 4 ^ 3 - 0.01779 * 4 powr 3.3 * (3000 / 911.8) powr (- 0.3)
          - 0.02916 * (3000 / 911.8) ^ 3)
       + 0.02545 * (4 powr 1.6 * (3000 / 911.8) powr 2.1 - (3000 / 911.8) powr 3.7) \<and>
   igm_tau 3 [3000, 4500, 6000] ! 1
     = 0.00235379 * (4500 / 1215.67) powr 3.7 + 0.0000538995 * (4500 / 1215.67) ^ 3 \<and>
   compute_igm 3 [3000, 4500, 6000] 2 ! 1 = exp (- 2 * igm_tau 3 [3000, 4500, 6000] ! 1) \<and>
   igm_tau 3 [3000, 4500, 6000] ! 2 = 0 \<and> compute_igm 3 [3000, 4500, 6000] 2 ! 2 = 1"
proof -
  note t = compute_igm_transmission [of 3 "[3000, 4500, 6000]" 2, THEN conjunct2, THEN spec]
  have "igm_tau 3 [3000, 4500, 6000] ! 0
     = (\<Sum>j<length ALAM. laf_term_spec 3 3000 j + dla_term_spec 3 3000 j)
       + (0.04696 * 4 ^ 3 - 0.01779 * 4 powr 3.3 * (3000 / 911.8) powr (- 0.3)
          - 0.02916 * (3000 / 911.8) ^ 3)
       + 0.02545 * (4 powr 1.6 * (3000 / 911.8) powr 2.1 - (3000 / 911.8) powr 3.7)"
    using t[of 0]
    by (simp add: lamL_def lyman_continuum_DLA_def lyman_continuum_LAF_def
          z1DLA_def z1LAF_def z2LAF_def)
  moreover have "igm_tau 3 [3000, 4500, 6000] ! 1
     = 0.00235379 * (4500 / 1215.67) powr 3.7 + 0.0000538995 * (4500 / 1215.67) ^ 3"
    using t[of 1] lyman_series_4500 by (simp add: lamL_def)
  moreover have
    "compute_igm 3 [3000, 4500, 6000] 2 ! 1 = exp (- 2 * igm_tau 3 [3000, 4500, 6000] ! 1)"
    using t[of 1] by simp
  moreover have
    "igm_tau 3 [3000, 4500, 6000] ! 2 = 0 \<and> compute_igm 3 [3000, 4500, 6000] 2 ! 2 = 1"
    using t[of 2] by simp
  ultimately show ?thesis by simp
qed

lemma table_nth:
  assumes "j < length ALAM"
  shows "912 < ALAM ! j" "ALAM ! j < 1216"
    "0 < ALAF1 ! j" "ALAF1 ! j < 0.017" "0 < ALAF2 ! j" "ALAF2 ! j < 0.017"
    "0 < ALAF3 ! j" "ALAF3 ! j < 0.017"
    "0 < ADLA1 ! j" "ADLA1 ! j < 0.001" "0 < ADLA2 ! j" "ADLA2 ! j < 0.001"
  using assms ALAM_bounds ALAF_bounds ADLA_bounds
  by (simp_all add: length_tables)

lemma laf_term_nonneg: "j < length ALAM \<Longrightarrow> 0 \<le> laf_term_spec z wi j"
  using table_nth(3,5,7)[of j]
  by (simp add: laf_term_spec_def Let_def)

lemma dla_term_nonneg: "j < length ALAM \<Longrightarrow> 0 \<le> wi \<Longrightarrow> 0 \<le> dla_term_spec z wi j"
  using table_nth(1,9,11)[of j]
  by (simp add: dla_term_spec_def Let_def)

lemma igm_pixel_nonneg:
  assumes "0 < z" "lamL * (1 + z) \<le> wi"
  shows "0 \<le> igm_pixel z wi 0"
proof -
  have "0 \<le> lamL * (1 + z)" using assms(1) by (simp add: lamL_def)
  then have wi: "0 \<le> wi" using assms(2) by linarith
  have "0 \<le> (\<Sum>j<length ALAM. laf_term_spec z wi j + dla_term_spec z wi j)"
    by (rule sum_nonneg) (simp add: laf_term_nonneg dla_term_nonneg wi)
  then show ?thesis using assms(2)
    by (simp add: igm_pixel_def lyman_continuum_def lyman_series_sum)
qed

lemma laf_term_le:
  assumes "j < length ALAM" "0 \<le> wi" "wi \<le> 912"
  shows "laf_term_spec z wi j \<le> 0.017"
proof -
  let ?r = "wi / ALAM ! j"
  have lam: "912 < ALAM ! j" using table_nth(1)[OF assms(1)] .
  have r: "0 \<le> ?r" "?r \<le> 1" using assms(2,3) lam by simp_all
  have p: "?r powr a \<le> 1" if "0 \<le> a" for a
    using r that by (simp add: powr_le1)
  have m: "c * ?r powr a \<le> 0.017" if "0 < c" "c < 0.017" "0 \<le> a" for c a
  proof -
    have "c * ?r powr a \<le> c * 1" using p[OF that(3)] that(1) by (intro mult_left_mono) simp_all
    then show ?thesis using that(2) by simp
  qed
  show ?thesis
    using m[OF table_nth(3,4)[OF assms(1)], of "1.2"] m[OF table_nth(5,6)[OF assms(1)], of "3.7"]
      m[OF table_nth(7,8)[OF assms(1)], of "5.5"]
    by (simp add: laf_term_spec_def Let_def)
qed

lemma dla_term_le:
  assumes "j < length ALAM" "0 \<le> wi" "wi \<le> 912"
  shows "dla_term_spec z wi j \<le> 0.001"
proof -
  let ?r = "wi / ALAM ! j"
  have lam: "912 < ALAM ! j" using table_nth(1)[OF assms(1)] .
  have r: "0 \<le> ?r" "?r \<le> 1" using assms(2,3) lam by simp_all
  have p: "?r ^ n \<le> 1" for n
    using r by (simp add: power_le_one)
  have m: "c * ?r ^ n \<le> 0.001" if "0 < c" "c < 0.001" for c n
  proof -
    have "c * ?r ^ n \<le> c * 1" using p[of n] that(1) by (intro mult_left_mono) simp_all
    then show ?thesis using that(2) by simp
  qed
  show ?thesis
    using m[OF table_nth(9,10)[OF assms(1)], of 2] m[OF table_nth(11,12)[OF assms(1)], of 3]
    by (simp add: dla_term_spec_def Let_def)
qed

lemma lyman_series_le:
  assumes "0 \<le> wi" "wi \<le> 912"
  shows "lyman_series z wi 0 \<le> 0.702"
proof -
  have "(\<Sum>j<length ALAM. laf_term_spec z wi j + dla_term_spec z wi j)
          \<le> of_nat (card {..<length ALAM}) * 0.018"
  proof (rule sum_bounded_above)
    fix j assume "j \<in> {..<length ALAM}"
    then have j: "j < length ALAM" by simp
    show "laf_term_spec z wi j + dla_term_spec z wi j \<le> 0.018"
      using laf_term_le[OF j assms, of z] dla_term_le[OF j assms, of z] by simp
  qed
  then show ?thesis by (simp add: lyman_series_sum length_tables)
qed

lemma powr_1024: "(1 / 1024 :: real) powr (- 0.3) = 8"
proof -
  have e: "(1 / 1024 :: real) = 2 powr (- 10)"
    by (simp add: powr_minus_divide)
  show ?thesis
    by (subst e, subst powr_powr) simp
qed

lemma two_powr_ge: "(4::real) \<le> 2 powr 2.3"
proof -
  have "(2::real) powr 2 \<le> 2 powr 2.3" by (rule powr_mono) simp_all
  then show ?thesis by simp
qed

lemma igm_pixel_negative: "igm_pixel 1 0.8904296875 0 < 0"
proof -
  let ?w = "0.8904296875 :: real"
  define L where "L = lyman_series 1 ?w 0"
  define a :: real where "a = 2 powr 2.3"
  define b :: real where "b = (1 / 1024) powr 1.2"
  define c :: real where "c = 2 powr (- 0.9) * (1 / 1024) powr 2.1"
  have y: "?w / lamL = 1 / 1024" by (simp add: lamL_def)
  have ls: "L \<le> 0.702" unfolding L_def by (rule lyman_series_le) simp_all
  have a: "4 \<le> a" unfolding a_def by (rule two_powr_ge)
  have b: "b \<le> 1" unfolding b_def by (simp add: powr_le1)
  have c: "0 \<le> c" unfolding c_def by simp
  have "igm_pixel 1 ?w 0 =
      lyman_series 1 ?w 0
      + (0.2113 * 2 ^ 2 - 0.07661 * 2 powr 2.3 * 8 - 0.1347 * (1 / 1024) ^ 2)
      + 0.3248 * ((1 / 1024) powr 1.2 - 2 powr (- 0.9) * (1 / 1024) powr 2.1)"
    by (simp add: igm_pixel_def lyman_continuum_def lyman_continuum_DLA_def
          lyman_continuum_LAF_def z1DLA_def z1LAF_def y powr_1024)
      (simp add: lamL_def powr_1024)
  then have eq: "igm_pixel 1 ?w 0 =
      L + (0.2113 * 2 ^ 2 - 0.07661 * a * 8 - 0.1347 * (1 / 1024) ^ 2) + 0.3248 * (b - c)"
    unfolding L_def a_def b_def c_def .
  have 1: "0.07661 * 4 * 8 \<le> 0.07661 * a * 8" using a by simp
  have 2: "0.3248 * (b - c) \<le> 0.3248" using b c by simp
  have 3: "L + 0.2113 * 2 ^ 2 - 0.07661 * 4 * 8 + 0.3248 < 0" using ls by simp
  have 4: "0 \<le> 0.1347 * (1 / 1024 :: real) ^ 2" by simp
  show ?thesis unfolding eq using 1 2 3 4 by linarith
qed

lemma igm_pixel_positive: "0 < igm_pixel 3 4500 0"
proof -
  have t0: "0 < laf_term_spec 3 4500 0 + dla_term_spec 3 4500 0"
    by (simp add: laf_term_spec_def dla_term_spec_def ALAM_def ALAF2_def ADLA2_def
          column_def LAF_rows_def DLA_rows_def add_pos_pos)
  have "laf_term_spec 3 4500 0 + dla_term_spec 3 4500 0
          \<le> (\<Sum>j<length ALAM. laf_term_spec 3 4500 j + dla_term_spec 3 4500 j)"
    by (rule member_le_sum) (simp_all add: laf_term_nonneg dla_term_nonneg length_tables)
  then have "0 < lyman_series 3 4500 0"
    using t0 by (simp add: lyman_series_sum)
  then show ?thesis
    by (simp add: igm_pixel_def lyman_continuum_def lamL_def)
qed

theorem lyman_series_terms_witness:
  "(4500::real) \<le> 1300 * (1 + 3) \<and>
   igm_pixel 3 4500 0 =
     lyman_continuum 3 4500 (\<Sum>j<length ALAM. laf_term_spec 3 4500 j + dla_term_spec 3 4500 j)"
  using lyman_series_terms [of 4500 3] by simp

section \<open>The range of compute\_igm\<close>

lemma powr_bernoulli:
  fixes r a :: real
  assumes "0 < r" "0 \<le> a" "a \<le> 1"
  shows "r powr a \<le> 1 + a * (r - 1)"
proof -
  define m where "m = 1 + a * (r - 1)"
  have m: "m = a * r + (1 - a)" by (simp add: m_def algebra_simps)
  have "0 < a * r + (1 - a)"
  proof (cases "a = 0")
    case True then show ?thesis by simp
  next
    case False
    then have "0 < a * r" using assms by simp
    then show ?thesis using assms(3) by linarith
  qed
  then have mp: "0 < m" by (simp add: m)
  have 1: "a * ln (r / m) \<le> a * (r / m - 1)"
    using assms mp by (intro mult_left_mono ln_le_minus_one) simp_all
  have 2: "(1 - a) * ln (1 / m) \<le> (1 - a) * (1 / m - 1)"
    using assms mp by (intro mult_left_mono ln_le_minus_one) simp_all
  have "a * (r / m - 1) + (1 - a) * (1 / m - 1) = (a * r + (1 - a)) / m - 1"
    by (simp add: add_divide_distrib diff_divide_distrib algebra_simps)
  also have "\<dots> = 0" using mp by (simp add: m)
  finally have 3: "a * ln (r / m) + (1 - a) * ln (1 / m) \<le> 0" using 1 2 by linarith
  have "a * ln (r / m) + (1 - a) * ln (1 / m) = a * ln r - ln m"
    using assms(1) mp by (simp add: ln_div algebra_simps)
  then have "a * ln r \<le> ln m" using 3 by linarith
  then have "exp (a * ln r) \<le> exp (ln m)" by (simp only: exp_le_cancel_iff)
  also have "exp (ln m) = m" using mp by simp
  finally have "exp (a * ln r) \<le> m" .
  then show ?thesis using assms(1) by (simp add: powr_def m_def)
qed

lemma powr_le_root:
  fixes b c :: real
  assumes "0 < b" "0 \<le> c" "0 < q" "b ^ p \<le> c ^ q"
  shows "b powr (real p / real q) \<le> c"
proof -
  have "b powr (real p / real q) = (b ^ p) powr (1 / real q)"
    using assms(1) by (simp add: powr_powr flip: powr_realpow)
  also have "\<dots> \<le> (c ^ q) powr (1 / real q)"
    using assms by (intro powr_mono2) simp_all
  also have "\<dots> = c"
    using assms(2,3) by (simp add: real_root_power_cancel flip: root_powr_inverse)
  finally show ?thesis .
qed

lemma powr_ge_root:
  fixes b c :: real
  assumes "0 < b" "0 \<le> c" "0 < q" "c ^ q \<le> b ^ p"
  shows "c \<le> b powr (real p / real q)"
proof -
  have "c = (c ^ q) powr (1 / real q)"
    using assms(2,3) by (simp add: real_root_power_cancel flip: root_powr_inverse)
  also have "\<dots> \<le> (b ^ p) powr (1 / real q)"
    using assms by (intro powr_mono2) simp_all
  also have "\<dots> = b powr (real p / real q)"
    using assms(1) by (simp add: powr_powr flip: powr_realpow)
  finally show ?thesis .
qed

lemma num_facts:
  "(2.2::real) powr 0.9 \<le> 2.034"
  "(3.53::real) \<le> 2.2 powr 1.6"
  "(371::real) \<le> 5.7 powr 3.4"
  "(5.7::real) powr 1.6 \<le> 16.2"
  "(5.7::real) powr 2.1 \<le> 39"
  "(5::real) powr 1.6 \<le> 13.25"
  "(21::real) powr 0.3 \<le> 2.5"
  "(2::real) powr (- 0.3) \<le> 0.82"
  "(2.5::real) powr (- 0.3) \<le> 0.76"
proof -
  have "(2.2::real) ^ 9 \<le> 2.034 ^ 10" by (simp add: power_divide)
  from powr_le_root[OF _ _ _ this] show "(2.2::real) powr 0.9 \<le> 2.034" by simp
  have "(3.53::real) ^ 10 \<le> 2.2 ^ 16" by (simp add: power_divide)
  from powr_ge_root[OF _ _ _ this] show "(3.53::real) \<le> 2.2 powr 1.6" by simp
  have "(371::real) ^ 10 \<le> 5.7 ^ 34" by (simp add: power_divide)
  from powr_ge_root[OF _ _ _ this] show "(371::real) \<le> 5.7 powr 3.4" by simp
  have "(5.7::real) ^ 16 \<le> 16.2 ^ 10" by (simp add: power_divide)
  from powr_le_root[OF _ _ _ this] show "(5.7::real) powr 1.6 \<le> 16.2" by simp
  have "(5.7::real) ^ 21 \<le> 39 ^ 10" by (simp add: power_divide)
  from powr_le_root[OF _ _ _ this] show "(5.7::real) powr 2.1 \<le> 39" by simp
  have "(5::real) ^ 16 \<le> 13.25 ^ 10" by (simp add: power_divide)
  from powr_le_root[OF _ _ _ this] show "(5::real) powr 1.6 \<le> 13.25" by simp
  have "(21::real) ^ 3 \<le> 2.5 ^ 10" by (simp add: power_divide)
  from powr_le_root[OF _ _ _ this] show "(21::real) powr 0.3 \<le> 2.5" by simp
  have "(1 / 2 :: real) ^ 3 \<le> 0.82 ^ 10" by (simp add: power_divide)
  from powr_le_root[OF _ _ _ this] have "(1 / 2 :: real) powr 0.3 \<le> 0.82" by simp
  then show "(2::real) powr (- 0.3) \<le> 0.82"
    by (simp add: powr_minus powr_divide inverse_eq_divide)
  have "(2 / 5 :: real) ^ 3 \<le> 0.76 ^ 10" by (simp add: power_divide)
  from powr_le_root[OF _ _ _ this] have "(2 / 5 :: real) powr 0.3 \<le> 0.76" by simp
  then show "(2.5::real) powr (- 0.3) \<le> 0.76"
    by (simp add: powr_minus powr_divide inverse_eq_divide)
qed

lemma damped_ratio_low:
  fixes r :: real
  assumes "1 \<le> r" "r \<le> 3"
  shows "0.07661 * r ^ 2 * r powr 0.3 + 0.1347 \<le> 0.21131 * r ^ 2"
proof -
  have R: "r powr 0.3 \<le> 1 + 0.3 * (r - 1)"
    using assms by (intro powr_bernoulli) simp_all
  have "0.07661 * r ^ 2 * r powr 0.3 \<le> 0.07661 * r ^ 2 * (1 + 0.3 * (r - 1))"
    using R by (intro mult_left_mono) simp_all
  moreover have "0 \<le> (r - 1) * (0.1347 * (r + 1) - 0.022983 * r ^ 2)"
  proof (rule mult_nonneg_nonneg)
    show "0 \<le> r - 1" using assms by simp
    have "r ^ 2 \<le> 3 * r" using assms by (simp add: power2_eq_square)
    then show "0 \<le> 0.1347 * (r + 1) - 0.022983 * r ^ 2" using assms by simp
  qed
  moreover have "0.21131 * r ^ 2 - (0.07661 * r ^ 2 * (1 + 0.3 * (r - 1)) + 0.1347)
      = (r - 1) * (0.1347 * (r + 1) - 0.022983 * r ^ 2)"
    by (simp add: field_simps power2_eq_square power3_eq_cube)
  ultimately show ?thesis by linarith
qed

lemma damped_ratio_high:
  fixes r :: real
  assumes "1 \<le> r" "r \<le> 21"
  shows "0.01779 * r ^ 3 * r powr 0.3 + 0.02916 \<le> 0.04696 * r ^ 3"
proof (cases "r \<le> 6")
  case True
  have R: "r powr 0.3 \<le> 1 + 0.3 * (r - 1)"
    using assms by (intro powr_bernoulli) simp_all
  have "0 \<le> r ^ 3" using assms by simp
  then have "0.01779 * r ^ 3 * r powr 0.3 \<le> 0.01779 * r ^ 3 * (1 + 0.3 * (r - 1))"
    using R by (intro mult_left_mono) simp_all
  moreover have "0 \<le> (r - 1) * (0.02916 * (r ^ 2 + r + 1) - 0.005337 * r ^ 3)"
  proof (rule mult_nonneg_nonneg)
    show "0 \<le> r - 1" using assms by simp
    have "r ^ 3 \<le> 6 * r ^ 2" using assms True
      by (simp add: power2_eq_square power3_eq_cube)
    moreover have "r ^ 2 \<le> 6 * r" using assms True by (simp add: power2_eq_square)
    ultimately show "0 \<le> 0.02916 * (r ^ 2 + r + 1) - 0.005337 * r ^ 3"
      using assms by simp
  qed
  moreover have "0.04696 * r ^ 3 - (0.01779 * r ^ 3 * (1 + 0.3 * (r - 1)) + 0.02916)
      = (r - 1) * (0.02916 * (r ^ 2 + r + 1) - 0.005337 * r ^ 3) + 0.00001 * r ^ 3"
    by (simp add: field_simps power2_eq_square power3_eq_cube)
  moreover have "0 \<le> 0.00001 * r ^ 3" using assms by simp
  ultimately show ?thesis by linarith
next
  case False
  then have r: "6 \<le> r" by simp
  have "r powr 0.3 \<le> 21 powr 0.3" using assms by (intro powr_mono2) simp_all
  then have R: "r powr 0.3 \<le> 2.5" using num_facts(7) by linarith
  have p: "0 \<le> r ^ 3" using assms by simp
  have "0.01779 * r ^ 3 * r powr 0.3 \<le> 0.01779 * r ^ 3 * 2.5"
    using R p by (intro mult_left_mono) simp_all
  moreover have "(6::real) ^ 3 \<le> r ^ 3" using r by (intro power_mono) simp_all
  ultimately show ?thesis by simp
qed


lemma continuum_ratio:
  fixes x y :: real
  assumes "0 < x" "0 < y"
  shows "x powr 2.3 * y powr (- 0.3) = y ^ 2 * ((x / y) ^ 2 * (x / y) powr 0.3)"
    and "x powr 3.3 * y powr (- 0.3) = y ^ 3 * ((x / y) ^ 3 * (x / y) powr 0.3)"
proof -
  have q: "(x / y) powr 0.3 = x powr 0.3 * y powr (- 0.3)"
    using assms by (simp add: powr_divide powr_minus_divide)
  have "x powr 2.3 = x powr (2 + 0.3)" by simp
  also have "\<dots> = x ^ 2 * x powr 0.3"
    using assms(1) by (simp only: powr_add powr_numeral)
  finally have a: "x powr 2.3 = x ^ 2 * x powr 0.3" .
  have "x powr 3.3 = x powr (3 + 0.3)" by simp
  also have "\<dots> = x ^ 3 * x powr 0.3"
    using assms(1) by (simp only: powr_add powr_numeral)
  finally have b: "x powr 3.3 = x ^ 3 * x powr 0.3" .
  have "y ^ 2 * ((x / y) ^ 2 * (x / y) powr 0.3) = x ^ 2 * (x / y) powr 0.3"
    using assms(2) by (simp add: power_divide)
  then show "x powr 2.3 * y powr (- 0.3) = y ^ 2 * ((x / y) ^ 2 * (x / y) powr 0.3)"
    by (simp only: a q mult.assoc)
  have "y ^ 3 * ((x / y) ^ 3 * (x / y) powr 0.3) = x ^ 3 * (x / y) powr 0.3"
    using assms(2) by (simp add: power_divide)
  then show "x powr 3.3 * y powr (- 0.3) = y ^ 3 * ((x / y) ^ 3 * (x / y) powr 0.3)"
    by (simp only: b q mult.assoc)
qed

lemma damped_low_redshift:
  fixes x y :: real
  assumes "1 \<le> y" "y \<le> x" "x \<le> 3"
  shows "- 0.00001 * x ^ 2
           \<le> 0.2113 * x ^ 2 - 0.07661 * x powr 2.3 * y powr (- 0.3) - 0.1347 * y ^ 2"
proof -
  define r where "r = x / y"
  have r: "1 \<le> r" "r \<le> 3" using assms by (simp_all add: r_def field_simps) 
  define T where "T = r ^ 2 * r powr 0.3"
  have k: "0.07661 * T + 0.1347 \<le> 0.21131 * r ^ 2"
    using damped_ratio_low[OF r] by (simp add: T_def mult.assoc)
  have e: "x powr 2.3 * y powr (- 0.3) = y ^ 2 * T"
    using continuum_ratio(1)[of x y] assms by (simp add: T_def r_def)
  have x: "x ^ 2 = y ^ 2 * r ^ 2" using assms by (simp add: r_def power_divide)
  have "0 \<le> y ^ 2 * (0.21131 * r ^ 2 - (0.07661 * T + 0.1347))"
    using k by (intro mult_nonneg_nonneg) simp_all
  also have "\<dots> = 0.21131 * x ^ 2 - 0.07661 * (y ^ 2 * T) - 0.1347 * y ^ 2"
    by (simp add: x algebra_simps)
  finally have f: "0 \<le> 0.21131 * x ^ 2 - 0.07661 * (y ^ 2 * T) - 0.1347 * y ^ 2" .
  have g: "0.07661 * x powr 2.3 * y powr (- 0.3) = 0.07661 * (y ^ 2 * T)"
    by (simp only: mult.assoc e)
  have h: "0.21131 * x ^ 2 = 0.2113 * x ^ 2 + 0.00001 * x ^ 2" by simp
  show ?thesis unfolding g using f h by linarith
qed

lemma damped_high_redshift:
  fixes x y :: real
  assumes "1 \<le> y" "y \<le> x" "x \<le> 21"
  shows "0 \<le> 0.04696 * x ^ 3 - 0.01779 * x powr 3.3 * y powr (- 0.3) - 0.02916 * y ^ 3"
proof -
  define r where "r = x / y"
  have r: "1 \<le> r" "r \<le> 21" using assms by (simp_all add: r_def field_simps)
  define T where "T = r ^ 3 * r powr 0.3"
  have k: "0.01779 * T + 0.02916 \<le> 0.04696 * r ^ 3"
    using damped_ratio_high[OF r] by (simp add: T_def mult.assoc)
  have e: "x powr 3.3 * y powr (- 0.3) = y ^ 3 * T"
    using continuum_ratio(2)[of x y] assms by (simp add: T_def r_def)
  have x: "x ^ 3 = y ^ 3 * r ^ 3" using assms by (simp add: r_def power_divide)
  have "0 \<le> y ^ 3 * (0.04696 * r ^ 3 - (0.01779 * T + 0.02916))"
    using k assms by (intro mult_nonneg_nonneg) simp_all
  also have "\<dots> = 0.04696 * x ^ 3 - 0.01779 * (y ^ 3 * T) - 0.02916 * y ^ 3"
    by (simp add: x algebra_simps)
  finally have f: "0 \<le> 0.04696 * x ^ 3 - 0.01779 * (y ^ 3 * T) - 0.02916 * y ^ 3" .
  have g: "0.01779 * x powr 3.3 * y powr (- 0.3) = 0.01779 * (y ^ 3 * T)"
    by (simp only: mult.assoc e)
  show ?thesis unfolding g using f by linarith
qed

lemma cubic_decreasing:
  fixes y b :: real
  assumes "1 \<le> y" "y \<le> b" "b \<le> 3"
  shows "0.02916 * b ^ 3 - 0.1347 * b ^ 2 \<le> 0.02916 * y ^ 3 - 0.1347 * y ^ 2"
proof -
  have "0 \<le> (b - y) * (0.1347 * (y + b) - 0.02916 * (y ^ 2 + y * b + b ^ 2))"
  proof (rule mult_nonneg_nonneg)
    show "0 \<le> b - y" using assms by simp
    have 1: "y ^ 2 \<le> 3 * y" using assms by (simp add: power2_eq_square)
    have 2: "b ^ 2 \<le> 3 * b" using assms by (simp add: power2_eq_square)
    have "y * b \<le> y * 3" using assms by (intro mult_left_mono) simp_all
    then have 3: "y * b \<le> 3 * y" by simp
    have "y * b \<le> 3 * b" using assms by (intro mult_right_mono) simp_all
    then have 4: "y * b \<le> 1.5 * y + 1.5 * b" using 3 by simp
    show "0 \<le> 0.1347 * (y + b) - 0.02916 * (y ^ 2 + y * b + b ^ 2)"
      using 1 2 4 assms by simp
  qed
  moreover have "(0.02916 * y ^ 3 - 0.1347 * y ^ 2) - (0.02916 * b ^ 3 - 0.1347 * b ^ 2)
      = (b - y) * (0.1347 * (y + b) - 0.02916 * (y ^ 2 + y * b + b ^ 2))"
    by (simp add: field_simps power2_eq_square power3_eq_cube)
  ultimately show ?thesis by linarith
qed

lemma damped_middle:
  fixes y :: real
  assumes "1 \<le> y" "y \<le> 3"
  shows "- 0.0118 \<le> 0.6340 + 0.02916 * y ^ 3 - 0.1347 * y ^ 2 - 0.2905 * y powr (- 0.3)"
    and "y \<le> 2.5 \<Longrightarrow>
           0.0095 \<le> 0.6340 + 0.02916 * y ^ 3 - 0.1347 * y ^ 2 - 0.2905 * y powr (- 0.3)"
proof -
  have low: "0.0095 \<le> 0.6340 + 0.02916 * y ^ 3 - 0.1347 * y ^ 2 - 0.2905 * y powr (- 0.3)"
    if "y \<le> 2.5"
  proof (cases "y \<le> 2")
    case True
    have "y powr (- 0.3) \<le> 1 powr (- 0.3)" using assms by (intro powr_mono2') simp_all
    then have "y powr (- 0.3) \<le> 1" by simp
    moreover have "0.02916 * 2 ^ 3 - 0.1347 * 2 ^ 2 \<le> 0.02916 * y ^ 3 - 0.1347 * y ^ 2"
      using assms True by (intro cubic_decreasing) simp_all
    ultimately show ?thesis by simp
  next
    case False
    have "y powr (- 0.3) \<le> 2 powr (- 0.3)"
      using False by (intro powr_mono2') simp_all
    then have "y powr (- 0.3) \<le> 0.82" using num_facts(8) by linarith
    moreover have "0.02916 * 2.5 ^ 3 - 0.1347 * 2.5 ^ 2 \<le> 0.02916 * y ^ 3 - 0.1347 * y ^ 2"
      using assms that by (intro cubic_decreasing) simp_all
    ultimately show ?thesis by (simp add: power_divide)
  qed
  show "y \<le> 2.5 \<Longrightarrow>
           0.0095 \<le> 0.6340 + 0.02916 * y ^ 3 - 0.1347 * y ^ 2 - 0.2905 * y powr (- 0.3)"
    using low .
  show "- 0.0118 \<le> 0.6340 + 0.02916 * y ^ 3 - 0.1347 * y ^ 2 - 0.2905 * y powr (- 0.3)"
  proof (cases "y \<le> 2.5")
    case True
    from low[OF this] show ?thesis by simp
  next
    case False
    have "y powr (- 0.3) \<le> 2.5 powr (- 0.3)"
      using False by (intro powr_mono2') simp_all
    then have "y powr (- 0.3) \<le> 0.76" using num_facts(9) by linarith
    moreover have "0.02916 * 3 ^ 3 - 0.1347 * 3 ^ 2 \<le> 0.02916 * y ^ 3 - 0.1347 * y ^ 2"
      using assms by (intro cubic_decreasing) simp_all
    ultimately show ?thesis by simp
  qed
qed

lemma powr_split_le:
  fixes x y a b :: real
  assumes "0 < y" "y \<le> x" "0 \<le> a"
  shows "y powr (a + b) \<le> x powr a * y powr b"
proof -
  have "y powr a \<le> x powr a" using assms by (intro powr_mono2) simp_all
  then have "y powr a * y powr b \<le> x powr a * y powr b"
    by (intro mult_right_mono) simp_all
  then show ?thesis by (simp add: powr_add)
qed

lemma forest_low:
  fixes x y :: real
  assumes "0 < y" "y \<le> x"
  shows "x powr (- 0.9) * y powr 2.1 \<le> y powr 1.2"
proof -
  have x: "0 < x" using assms by linarith
  have "y powr (0.9 + 1.2) \<le> x powr 0.9 * y powr 1.2"
    using assms by (intro powr_split_le) simp_all
  then have "y powr 2.1 \<le> x powr 0.9 * y powr 1.2" by simp
  then have "x powr (- 0.9) * y powr 2.1 \<le> x powr (- 0.9) * (x powr 0.9 * y powr 1.2)"
    by (intro mult_left_mono) simp_all
  also have "\<dots> = (x powr (- 0.9) * x powr 0.9) * y powr 1.2" by (simp only: mult.assoc)
  also have "x powr (- 0.9) * x powr 0.9 = 1" using x by (simp flip: powr_add)
  finally show ?thesis by simp
qed

lemma forest_middle:
  fixes x y :: real
  assumes "2.2 \<le> x" "1 \<le> y" "y \<le> 2.2"
  shows "- 0.001 \<le> 0.02545 * x powr 1.6 * y powr 2.1 + 0.3248 * y powr 1.2
                     - 0.2496 * y powr 2.1"
proof -
  define A where "A = y powr 1.2"
  define B where "B = y powr 0.9"
  define X where "X = x powr 1.6"
  define P where "P = A * B"
  have P: "y powr 2.1 = P"
  proof -
    have "y powr 2.1 = y powr (1.2 + 0.9)" by simp
    then show ?thesis by (simp only: powr_add P_def A_def B_def)
  qed
  have A0: "0 \<le> A" by (simp add: A_def)
  have "y powr 1.2 \<le> y powr 2" using assms by (intro powr_mono) simp_all
  also have "\<dots> = y ^ 2" using assms by simp
  also have "\<dots> \<le> 2.2 ^ 2" using assms by (intro power_mono) simp_all
  finally have A: "A \<le> 4.84" by (simp add: A_def power_divide)
  have "y powr 0.9 \<le> 2.2 powr 0.9" using assms by (intro powr_mono2) simp_all
  then have B: "B \<le> 2.034" using num_facts(1) by (simp add: B_def)
  have B0: "0 \<le> B" by (simp add: B_def)
  have "2.2 powr 1.6 \<le> x powr 1.6" using assms by (intro powr_mono2) simp_all
  then have X: "3.53 \<le> X" using num_facts(2) by (simp add: X_def)
  have P0: "0 \<le> P" using A0 B0 by (simp add: P_def)
  have 1: "3.53 * P \<le> X * P" using X P0 by (intro mult_right_mono) simp_all
  have 2: "P \<le> A * 2.034" unfolding P_def using B A0 by (intro mult_left_mono) simp_all
  define Q where "Q = X * P"
  have "- 0.001 \<le> 0.02545 * Q + 0.3248 * A - 0.2496 * P"
    using 1 2 A A0 by (simp add: Q_def)
  then show ?thesis by (simp add: P Q_def A_def X_def mult.assoc)
qed

lemma forest_high:
  fixes x y :: real
  assumes "5.7 \<le> x" "1 \<le> y" "y \<le> 5.7"
  shows "- 0.0153 \<le> 0.0005221 * x powr 3.4 * y powr 2.1 + 0.2182 * y powr 2.1
                      - 0.02545 * y powr 3.7"
    and "y \<le> 5 \<Longrightarrow> 0 \<le> 0.0005221 * x powr 3.4 * y powr 2.1 + 0.2182 * y powr 2.1
                      - 0.02545 * y powr 3.7"
    and "0 \<le> 0.0005221 * x powr 3.4 * y powr 2.1 + 0.3248 * y powr 1.2
                      - 0.0314 * y powr 2.1"
proof -
  define P where "P = y powr 2.1"
  define C where "C = y powr 1.6"
  define X where "X = x powr 3.4"
  define Q where "Q = X * P"
  define R where "R = P * C"
  have R: "y powr 3.7 = R"
  proof -
    have "y powr 3.7 = y powr (2.1 + 1.6)" by simp
    then show ?thesis by (simp only: powr_add R_def P_def C_def)
  qed
  have P0: "0 \<le> P" by (simp add: P_def)
  have "5.7 powr 3.4 \<le> x powr 3.4" using assms by (intro powr_mono2) simp_all
  then have X: "371 \<le> X" using num_facts(3) by (simp add: X_def)
  have 1: "371 * P \<le> Q" unfolding Q_def using X P0 by (intro mult_right_mono) simp_all
  have "y powr 2.1 \<le> 5.7 powr 2.1" using assms by (intro powr_mono2) simp_all
  then have P: "P \<le> 39" using num_facts(5) by (simp add: P_def)
  have "y powr 1.6 \<le> 5.7 powr 1.6" using assms by (intro powr_mono2) simp_all
  then have "C \<le> 16.2" using num_facts(4) by (simp add: C_def)
  then have 2: "R \<le> P * 16.2" unfolding R_def using P0 by (intro mult_left_mono) simp_all
  have "- 0.0153 \<le> 0.0005221 * Q + 0.2182 * P - 0.02545 * R"
    using 1 2 P P0 by simp
  then show "- 0.0153 \<le> 0.0005221 * x powr 3.4 * y powr 2.1 + 0.2182 * y powr 2.1
                      - 0.02545 * y powr 3.7"
    by (simp add: R Q_def P_def X_def mult.assoc)
  have "0 \<le> 0.0005221 * Q + 0.2182 * P - 0.02545 * R" if "y \<le> 5"
  proof -
    have "y powr 1.6 \<le> 5 powr 1.6" using assms that by (intro powr_mono2) simp_all
    then have "C \<le> 13.25" using num_facts(6) by (simp add: C_def)
    then have "R \<le> P * 13.25" unfolding R_def using P0 by (intro mult_left_mono) simp_all
    then show ?thesis using 1 P0 by simp
  qed
  then show "y \<le> 5 \<Longrightarrow> 0 \<le> 0.0005221 * x powr 3.4 * y powr 2.1 + 0.2182 * y powr 2.1
                      - 0.02545 * y powr 3.7"
    by (simp add: R Q_def P_def X_def mult.assoc)
  define A where "A = y powr 1.2"
  have A0: "0 \<le> A" by (simp add: A_def)
  have "0 \<le> 0.0005221 * Q + 0.3248 * A - 0.0314 * P"
    using 1 P0 A0 by simp
  then show "0 \<le> 0.0005221 * x powr 3.4 * y powr 2.1 + 0.3248 * y powr 1.2
                      - 0.0314 * y powr 2.1"
    by (simp add: Q_def P_def X_def A_def mult.assoc)
qed

lemma lyman_continuum_DLA_ge:
  assumes "0 < z" "z \<le> 20" "lamL \<le> wi" "wi < lamL * (1 + z)"
  shows "- 0.0118 \<le> lyman_continuum_DLA z wi 0"
    and "wi \<le> lamL * 2.5 \<Longrightarrow> - 0.0001 \<le> lyman_continuum_DLA z wi 0"
proof -
  define x where "x = 1 + z"
  define y where "y = wi / lamL"
  have L: "0 < lamL" by (simp add: lamL_def)
  have y1: "1 \<le> y" using assms(3) L by (simp add: y_def)
  have yx: "y \<le> x" using assms(4) L by (simp add: y_def x_def field_simps)
  have x21: "x \<le> 21" using assms(2) by (simp add: x_def)
  have x1: "1 \<le> x" using assms(1) by (simp add: x_def)
  define H where "H = 0.04696 * x ^ 3 - 0.01779 * x powr 3.3 * y powr (- 0.3) - 0.02916 * y ^ 3"
  have H: "0 \<le> H" unfolding H_def using y1 yx x21 by (rule damped_high_redshift)
  have main: "- 0.0118 \<le> lyman_continuum_DLA z wi 0
      \<and> (y \<le> 2.5 \<longrightarrow> - 0.0001 \<le> lyman_continuum_DLA z wi 0)"
  proof (cases "z < z1DLA")
    case True
    then have x3: "x \<le> 3" by (simp add: x_def z1DLA_def)
    have e: "lyman_continuum_DLA z wi 0
        = 0.2113 * x ^ 2 - 0.07661 * x powr 2.3 * y powr (- 0.3) - 0.1347 * y ^ 2"
      unfolding lyman_continuum_DLA_def x_def y_def using True by simp
    have "x ^ 2 \<le> 3 ^ 2" using x1 x3 by (intro power_mono) simp_all
    then have "- 0.00009 \<le> - 0.00001 * x ^ 2" by simp
    also have "\<dots> \<le> lyman_continuum_DLA z wi 0"
      unfolding e using y1 yx x3 by (rule damped_low_redshift)
    finally show ?thesis by simp
  next
    case False
    show ?thesis
    proof (cases "wi \<ge> lamL * (1 + z1DLA)")
      case True
      have e: "lyman_continuum_DLA z wi 0 = H"
        unfolding lyman_continuum_DLA_def H_def x_def y_def using False True by simp
      show ?thesis unfolding e using H by simp
    next
      case c: False
      then have y3: "y \<le> 3" using L by (simp add: y_def z1DLA_def field_simps)
      define M where "M = 0.6340 + 0.02916 * y ^ 3 - 0.1347 * y ^ 2 - 0.2905 * y powr (- 0.3)"
      have "lyman_continuum_DLA z wi 0
          = 0.6340 + 0.04696 * x ^ 3 - 0.01779 * x powr 3.3 * y powr (- 0.3)
            - 0.1347 * y ^ 2 - 0.2905 * y powr (- 0.3)"
        unfolding lyman_continuum_DLA_def x_def y_def using False c by simp
      also have "\<dots> = H + M" by (simp add: H_def M_def)
      finally have e: "lyman_continuum_DLA z wi 0 = H + M" .
      have 1: "- 0.0118 \<le> M" unfolding M_def using y1 y3 by (rule damped_middle(1))
      have 2: "0.0095 \<le> M" if "y \<le> 2.5"
        unfolding M_def using y1 y3 that by (rule damped_middle(2))
      show ?thesis unfolding e using H 1 2 by auto
    qed
  qed
  show "- 0.0118 \<le> lyman_continuum_DLA z wi 0" using main by simp
  show "wi \<le> lamL * 2.5 \<Longrightarrow> - 0.0001 \<le> lyman_continuum_DLA z wi 0"
    using main L by (simp add: y_def field_simps)
qed

lemma lyman_continuum_LAF_ge:
  assumes "0 < z" "lamL \<le> wi" "wi < lamL * (1 + z)"
  shows "- 0.0153 \<le> lyman_continuum_LAF z wi 0"
    and "wi \<le> lamL * 5 \<Longrightarrow> - 0.001 \<le> lyman_continuum_LAF z wi 0"
proof -
  define x where "x = 1 + z"
  define y where "y = wi / lamL"
  have L: "0 < lamL" by (simp add: lamL_def)
  have y1: "1 \<le> y" using assms(2) L by (simp add: y_def)
  have y0: "0 < y" using y1 by linarith
  have yx: "y \<le> x" using assms(3) L by (simp add: y_def x_def field_simps)
  have main: "- 0.0153 \<le> lyman_continuum_LAF z wi 0
      \<and> (y \<le> 5 \<longrightarrow> - 0.001 \<le> lyman_continuum_LAF z wi 0)"
  proof (cases "z < z1LAF")
    case True
    have e: "lyman_continuum_LAF z wi 0
        = 0.3248 * (y powr 1.2 - x powr (- 0.9) * y powr 2.1)"
      unfolding lyman_continuum_LAF_def x_def y_def using True by simp
    have "x powr (- 0.9) * y powr 2.1 \<le> y powr 1.2" using y0 yx by (rule forest_low)
    then have "0 \<le> lyman_continuum_LAF z wi 0" unfolding e by simp
    then show ?thesis by simp
  next
    case z1: False
    show ?thesis
    proof (cases "z < z2LAF")
      case True
      show ?thesis
      proof (cases "wi \<ge> lamL * (1 + z1LAF)")
        case w: True
        have e: "lyman_continuum_LAF z wi 0
            = 0.02545 * (x powr 1.6 * y powr 2.1 - y powr 3.7)"
          unfolding lyman_continuum_LAF_def x_def y_def using z1 True w by simp
        have "y powr (1.6 + 2.1) \<le> x powr 1.6 * y powr 2.1"
          using y0 yx by (intro powr_split_le) simp_all
        then have "0 \<le> lyman_continuum_LAF z wi 0" unfolding e by simp
        then show ?thesis by simp
      next
        case w: False
        have e: "lyman_continuum_LAF z wi 0
            = 0.02545 * x powr 1.6 * y powr 2.1 + 0.3248 * y powr 1.2 - 0.2496 * y powr 2.1"
          unfolding lyman_continuum_LAF_def x_def y_def using z1 True w by simp
        have x2: "2.2 \<le> x" using z1 by (simp add: x_def z1LAF_def)
        have y2: "y \<le> 2.2" using w L by (simp add: y_def z1LAF_def field_simps)
        have "- 0.001 \<le> lyman_continuum_LAF z wi 0"
          unfolding e using x2 y1 y2 by (rule forest_middle)
        then show ?thesis by simp
      qed
    next
      case z2: False
      have x5: "5.7 \<le> x" using z2 by (simp add: x_def z2LAF_def)
      show ?thesis
      proof (cases "wi > lamL * (1.0 + z2LAF)")
        case w: True
        have e: "lyman_continuum_LAF z wi 0
            = 0.0005221 * (x powr 3.4 * y powr 2.1 - y powr 5.5)"
          unfolding lyman_continuum_LAF_def x_def y_def using z1 z2 w by simp
        have "y powr (3.4 + 2.1) \<le> x powr 3.4 * y powr 2.1"
          using y0 yx by (intro powr_split_le) simp_all
        then have "0 \<le> lyman_continuum_LAF z wi 0" unfolding e by simp
        then show ?thesis by simp
      next
        case w: False
        then have y5: "y \<le> 5.7" using L by (simp add: y_def z2LAF_def field_simps)
        show ?thesis
        proof (cases "(wi \<ge> lamL * (1 + z1LAF)) \<and> (wi < lamL * (1 + z2LAF))")
          case m: True
          have e: "lyman_continuum_LAF z wi 0
              = 0.0005221 * x powr 3.4 * y powr 2.1 + 0.2182 * y powr 2.1
                - 0.02545 * y powr 3.7"
            unfolding lyman_continuum_LAF_def x_def y_def using z1 z2 w m by simp
          have 1: "- 0.0153 \<le> lyman_continuum_LAF z wi 0"
            unfolding e using x5 y1 y5 by (rule forest_high(1))
          have 2: "0 \<le> lyman_continuum_LAF z wi 0" if "y \<le> 5"
            unfolding e using x5 y1 y5 that by (rule forest_high(2))
          show ?thesis using 1 2 by auto
        next
          case m: False
          show ?thesis
          proof (cases "wi < lamL * (1 + z1LAF)")
            case l: True
            have e: "lyman_continuum_LAF z wi 0
                = 0.0005221 * x powr 3.4 * y powr 2.1 + 0.3248 * y powr 1.2
                  - 0.0314 * y powr 2.1"
              unfolding lyman_continuum_LAF_def x_def y_def using z1 z2 w m l by simp
            have "0 \<le> lyman_continuum_LAF z wi 0"
              unfolding e using x5 y1 y5 by (rule forest_high(3))
            then show ?thesis by simp
          next
            case l: False
            have "lyman_continuum_LAF z wi 0 = 0"
              unfolding lyman_continuum_LAF_def using z1 z2 w m l by simp
            then show ?thesis by simp
          qed
        qed
      qed
    qed
  qed
  show "- 0.0153 \<le> lyman_continuum_LAF z wi 0" using main by simp
  show "wi \<le> lamL * 5 \<Longrightarrow> - 0.001 \<le> lyman_continuum_LAF z wi 0"
    using main L by (simp add: y_def field_simps)
qed

lemma first_row:
  "ALAM ! 0 = 1215.67" "ALAF1 ! 0 = 0.0168976" "ALAF2 ! 0 = 0.00235379"
  "ALAF3 ! 0 = 0.000102611"
  by (simp_all add: ALAM_def ALAF1_def ALAF2_def ALAF3_def column_def LAF_rows_def)

lemma first_row_le_series:
  assumes "0 \<le> wi"
  shows "laf_term_spec z wi 0 \<le> (\<Sum>j<length ALAM. laf_term_spec z wi j + dla_term_spec z wi j)"
proof -
  have "laf_term_spec z wi 0 \<le> laf_term_spec z wi 0 + dla_term_spec z wi 0"
    using dla_term_nonneg[of 0 wi z] assms by (simp add: length_tables)
  also have "\<dots> \<le> (\<Sum>j<length ALAM. laf_term_spec z wi j + dla_term_spec z wi j)"
  proof (rule member_le_sum)
    show "0 \<in> {..<length ALAM}" by (simp add: length_tables)
    show "finite {..<length ALAM}" by simp
    fix j assume "j \<in> {..<length ALAM} - {0}"
    then have "j < length ALAM" by simp
    then show "0 \<le> laf_term_spec z wi j + dla_term_spec z wi j"
      using laf_term_nonneg[of j z wi] dla_term_nonneg[of j wi z] assms by simp
  qed
  finally show ?thesis .
qed

lemma first_row_ge:
  assumes "lamL \<le> wi" "wi < 1215.67 * (1 + z)"
  shows "0.0095 \<le> laf_term_spec z wi 0"
    and "lamL * 2.5 \<le> wi \<Longrightarrow> 0.025 \<le> laf_term_spec z wi 0"
    and "lamL * 5 \<le> wi \<Longrightarrow> 0.03 \<le> laf_term_spec z wi 0"
proof -
  define q where "q = wi / 1215.67"
  have q: "0.75 \<le> q" using assms(1) by (simp add: q_def lamL_def)
  have e: "laf_term_spec z wi 0 =
      (if q < 2.2 then 0.0168976 * q powr 1.2
       else if q < 5.7 then 0.00235379 * q powr 3.7
       else 0.000102611 * q powr 5.5)"
    using assms(2) by (simp add: laf_term_spec_def first_row q_def Let_def)
  have low: "0.5625 \<le> q powr 1.2"
  proof -
    have "(0.75::real) powr 2 \<le> 0.75 powr 1.2" by (intro powr_mono') simp_all
    also have "\<dots> \<le> q powr 1.2" using q by (intro powr_mono2) simp_all
    finally show ?thesis by (simp add: power_divide)
  qed
  have mid: "10.648 \<le> q powr 3.7" if "2.2 \<le> q"
  proof -
    have "(2.2::real) ^ 3 \<le> q ^ 3" using that by (intro power_mono) simp_all
    also have "\<dots> = q powr 3" using that by simp
    also have "\<dots> \<le> q powr 3.7" using that by (intro powr_mono) simp_all
    finally show ?thesis by (simp add: power_divide)
  qed
  have high: "6000 \<le> q powr 5.5" if "5.7 \<le> q"
  proof -
    have "(5.7::real) ^ 5 \<le> q ^ 5" using that by (intro power_mono) simp_all
    also have "\<dots> = q powr 5" using that by simp
    also have "\<dots> \<le> q powr 5.5" using that by (intro powr_mono) simp_all
    finally show ?thesis by (simp add: power_divide)
  qed
  show "0.0095 \<le> laf_term_spec z wi 0"
    unfolding e using low mid high by auto
  show "0.025 \<le> laf_term_spec z wi 0" if "lamL * 2.5 \<le> wi"
  proof -
    have q2: "1.875 \<le> q" using that by (simp add: q_def lamL_def)
    have "q powr 1 \<le> q powr 1.2" using q2 by (intro powr_mono) simp_all
    then have "1.875 \<le> q powr 1.2" using q2 by simp
    then show ?thesis unfolding e using mid high by auto
  qed
  show "0.03 \<le> laf_term_spec z wi 0" if "lamL * 5 \<le> wi"
  proof -
    have q3: "3.75 \<le> q" using that by (simp add: q_def lamL_def)
    have "(3.75::real) ^ 3 \<le> q ^ 3" using q3 by (intro power_mono) simp_all
    also have "\<dots> = q powr 3" using q3 by simp
    also have "\<dots> \<le> q powr 3.7" using q3 by (intro powr_mono) simp_all
    finally have "52 \<le> q powr 3.7" by (simp add: power_divide)
    then show ?thesis unfolding e using q3 high by auto
  qed
qed

lemma igm_pixel_continuum_pos:
  assumes "0 < z" "z \<le> 20" "lamL \<le> wi" "wi < lamL * (1 + z)"
  shows "0 < igm_pixel z wi 0"
proof -
  define S where "S = (\<Sum>j<length ALAM. laf_term_spec z wi j + dla_term_spec z wi j)"
  define D where "D = lyman_continuum_DLA z wi 0"
  define F where "F = lyman_continuum_LAF z wi 0"
  define T where "T = laf_term_spec z wi 0"
  have L: "0 < lamL" by (simp add: lamL_def)
  have wi0: "0 \<le> wi" using assms(3) L by linarith
  have z1: "0 < 1 + z" using assms(1) by simp
  have "lamL * (1 + z) \<le> 1215.67 * (1 + z)"
    using z1 by (intro mult_right_mono) (simp_all add: lamL_def)
  then have w1: "wi < 1215.67 * (1 + z)" using assms(4) by linarith
  have "1215.67 * (1 + z) \<le> 1300 * (1 + z)"
    using z1 by (intro mult_right_mono) simp_all
  then have w2: "\<not> wi > 1300 * (1 + z)" using w1 by linarith
  have e: "igm_pixel z wi 0 = S + (D + F)"
    unfolding igm_pixel_sum S_def D_def F_def using w2 assms(4) by simp
  have TS: "T \<le> S" unfolding T_def S_def using wi0 by (rule first_row_le_series)
  have T1: "0.0095 \<le> T" unfolding T_def using assms(3) w1 by (rule first_row_ge(1))
  have T2: "0.025 \<le> T" if "lamL * 2.5 \<le> wi"
    unfolding T_def using assms(3) w1 that by (rule first_row_ge(2))
  have T3: "0.03 \<le> T" if "lamL * 5 \<le> wi"
    unfolding T_def using assms(3) w1 that by (rule first_row_ge(3))
  have D1: "- 0.0118 \<le> D" unfolding D_def using assms by (rule lyman_continuum_DLA_ge(1))
  have D2: "- 0.0001 \<le> D" if "wi \<le> lamL * 2.5"
    unfolding D_def using assms that by (rule lyman_continuum_DLA_ge(2))
  have F1: "- 0.0153 \<le> F"
    unfolding F_def using assms(1,3,4) by (rule lyman_continuum_LAF_ge(1))
  have F2: "- 0.001 \<le> F" if "wi \<le> lamL * 5"
    unfolding F_def using assms(1,3,4) that by (rule lyman_continuum_LAF_ge(2))
  consider "wi \<le> lamL * 2.5" | "lamL * 2.5 \<le> wi" "wi \<le> lamL * 5" | "lamL * 5 \<le> wi"
    by linarith
  then have "0 < S + (D + F)"
  proof cases
    case 1
    have "lamL * 2.5 \<le> lamL * 5" using L by simp
    then have "wi \<le> lamL * 5" using 1 by linarith
    from D2[OF 1] F2[OF this] T1 TS show ?thesis by simp
  next
    case 2
    from T2[OF 2(1)] F2[OF 2(2)] D1 TS show ?thesis by simp
  next
    case 3
    from T3[OF 3] F1 D1 TS show ?thesis by simp
  qed
  then show ?thesis by (simp only: e)
qed

lemma igm_pixel_series_pos:
  assumes "0 < z" "lamL * (1 + z) \<le> wi" "wi < 1215.67 * (1 + z)"
  shows "0 < igm_pixel z wi 0"
proof -
  have L: "0 < lamL" by (simp add: lamL_def)
  have "lamL * 1 \<le> lamL * (1 + z)" using assms(1) L by (intro mult_left_mono) simp_all
  then have w: "lamL \<le> wi" using assms(2) by simp
  then have wi0: "0 \<le> wi" using L by linarith
  have "1215.67 * (1 + z) \<le> 1300 * (1 + z)"
    using assms(1) by (intro mult_right_mono) simp_all
  then have w2: "\<not> wi > 1300 * (1 + z)" using assms(3) by linarith
  have "0.0095 \<le> laf_term_spec z wi 0" using w assms(3) by (rule first_row_ge(1))
  also have "\<dots> \<le> (\<Sum>j<length ALAM. laf_term_spec z wi j + dla_term_spec z wi j)"
    using wi0 by (rule first_row_le_series)
  finally show ?thesis
    unfolding igm_pixel_sum using w2 assms(2) by simp
qed

lemma igm_pixel_high_redshift_negative: "igm_pixel 31 911.8 0 < 0"
proof -
  let ?w = "911.8 :: real"
  define L where "L = lyman_series 31 ?w 0"
  define a :: real where "a = 32 powr 3.3"
  define b :: real where "b = 32 powr 3.4"
  have ls: "L \<le> 0.702" unfolding L_def by (rule lyman_series_le) simp_all
  have "(92000::real) ^ 10 \<le> 32 ^ 33" by simp
  from powr_ge_root[OF _ _ _ this] have a: "92000 \<le> a" by (simp add: a_def)
  have "(32::real) ^ 34 \<le> 131072 ^ 10" by simp
  from powr_le_root[OF _ _ _ this] have b: "b \<le> 131072" by (simp add: b_def)
  have "igm_pixel 31 ?w 0 =
      lyman_series 31 ?w 0
      + (0.6340 + 0.04696 * 32 ^ 3 - 0.01779 * 32 powr 3.3 - 0.1347 - 0.2905)
      + (0.0005221 * 32 powr 3.4 + 0.3248 - 0.0314)"
    by (simp add: igm_pixel_def lyman_continuum_def lyman_continuum_DLA_def
          lyman_continuum_LAF_def z1DLA_def z1LAF_def z2LAF_def lamL_def)
  then have eq: "igm_pixel 31 ?w 0 =
      L + (0.6340 + 0.04696 * 32 ^ 3 - 0.01779 * a - 0.1347 - 0.2905)
        + (0.0005221 * b + 0.3248 - 0.0314)"
    unfolding L_def a_def b_def .
  show ?thesis unfolding eq using ls a b by simp
qed

lemma igm_pixel_large: "1075 < igm_pixel 20 25000 0"
proof -
  define q :: real where "q = 25000 / 1215.67"
  have q: "20.5 \<le> q" by (simp add: q_def)
  have "(16000000::real) ^ 2 \<le> 20.5 ^ 11" by (simp add: power_divide)
  from powr_ge_root[OF _ _ _ this] have "(16000000::real) \<le> 20.5 powr 5.5" by simp
  also have "\<dots> \<le> q powr 5.5" using q by (intro powr_mono2) simp_all
  finally have p: "16000000 \<le> q powr 5.5" .
  have "laf_term_spec 20 25000 0 = 0.000102611 * q powr 5.5"
    by (simp add: laf_term_spec_def first_row q_def Let_def)
  then have "1075 < laf_term_spec 20 25000 0" using p by simp
  also have "\<dots> \<le> (\<Sum>j<length ALAM. laf_term_spec 20 25000 j + dla_term_spec 20 25000 j)"
    by (rule first_row_le_series) simp
  finally show ?thesis
    unfolding igm_pixel_sum by (simp add: lamL_def)
qed

lemma exp_below_least_double:
  fixes t :: real
  assumes "1075 < t"
  shows "exp (- t) < 1 / 2 ^ 1075"
proof -
  have "(2::real) \<le> exp 1" using exp_ge_add_one_self[of "1::real"] by simp
  then have "(2::real) ^ 1075 \<le> exp 1 ^ 1075" by (intro power_mono) simp_all
  also have "\<dots> = exp (of_nat 1075 * 1)" by (simp only: exp_of_nat_mult)
  also have "\<dots> < exp t" using assms by simp
  finally have "(2::real) ^ 1075 < exp t" .
  then have "1 / exp t < 1 / 2 ^ 1075"
    by (intro divide_strict_left_mono mult_pos_pos) simp_all
  then show ?thesis by (simp only: exp_minus inverse_eq_divide)
qed

text \<open>
  C4, as amended: for a redshift \<open>0 < z \<le> 20\<close> and a wavelength
  \<open>wobs[i] \<ge> 911.8\<close>, and for every redshift \<open>z > 0\<close> at a wavelength
  \<open>wobs[i] \<ge> 911.8 (1 + z)\<close>, where no Lyman continuum term is added, the
  accumulated optical depth \<open>tau[i]\<close> is not negative, and it is strictly positive
  below \<open>1215.67 (1 + z)\<close>, where the first row of the Lyman series absorbs.
  There the entry of the result lies in the closed interval \<open>[0, 1]\<close> when
  \<open>scale_tau \<ge> 0\<close>, and it does not increase when \<open>scale_tau\<close> increases.
  The lower end of the interval is closed: the exponential of a large optical depth is
  below every positive number that the result's floating-point type holds.
\<close>

theorem compute_igm_range:
  assumes "0 < z" "i < length wobs" "lamL \<le> wobs ! i"
    "z \<le> 20 \<or> lamL * (1 + z) \<le> wobs ! i"
  shows "0 \<le> igm_tau z wobs ! i \<and>
         (wobs ! i < 1215.67 * (1 + z) \<longrightarrow> 0 < igm_tau z wobs ! i) \<and>
         (0 \<le> scale_tau \<longrightarrow>
            0 \<le> compute_igm z wobs scale_tau ! i \<and> compute_igm z wobs scale_tau ! i \<le> 1) \<and>
         (\<forall>s1 s2. s1 \<le> s2 \<longrightarrow> compute_igm z wobs s2 ! i \<le> compute_igm z wobs s1 ! i)"
proof -
  have tau: "igm_tau z wobs ! i = igm_pixel z (wobs ! i) 0"
    using assms(2) by (simp add: igm_tau_map)
  have val: "compute_igm z wobs s ! i = exp (- s * igm_pixel z (wobs ! i) 0)" for s
    using assms(2) by (simp add: compute_igm_def igm_tau_map)
  have nonneg: "0 \<le> igm_pixel z (wobs ! i) 0"
  proof (cases "lamL * (1 + z) \<le> wobs ! i")
    case True
    then show ?thesis by (rule igm_pixel_nonneg[OF assms(1)])
  next
    case False
    then have "z \<le> 20" "wobs ! i < lamL * (1 + z)" using assms(4) by simp_all
    then have "0 < igm_pixel z (wobs ! i) 0"
      using assms(1,3) by (intro igm_pixel_continuum_pos) simp_all
    then show ?thesis by simp
  qed
  have pos: "0 < igm_pixel z (wobs ! i) 0" if "wobs ! i < 1215.67 * (1 + z)"
  proof (cases "lamL * (1 + z) \<le> wobs ! i")
    case True
    then show ?thesis using assms(1) that by (intro igm_pixel_series_pos) simp_all
  next
    case False
    then have "z \<le> 20" "wobs ! i < lamL * (1 + z)" using assms(4) by simp_all
    then show ?thesis
      using assms(1,3) by (intro igm_pixel_continuum_pos) simp_all
  qed
  show ?thesis
  proof (intro conjI impI allI)
    show "0 \<le> igm_tau z wobs ! i" unfolding tau by (rule nonneg)
  next
    assume "wobs ! i < 1215.67 * (1 + z)"
    then show "0 < igm_tau z wobs ! i" unfolding tau by (rule pos)
  next
    show "0 \<le> compute_igm z wobs scale_tau ! i" by (simp add: val)
  next
    assume "0 \<le> scale_tau"
    then show "compute_igm z wobs scale_tau ! i \<le> 1"
      using nonneg by (simp add: val)
  next
    fix s1 s2 :: real
    assume "s1 \<le> s2"
    then show "compute_igm z wobs s2 ! i \<le> compute_igm z wobs s1 ! i"
      using nonneg by (simp add: val mult_right_mono)
  qed
qed

text \<open>
  C4 as stated fails.  At \<open>z = 1\<close> and the wavelength \<open>911.8 / 1024\<close> the
  optical depth is negative, so with \<open>scale_tau = 1\<close> the transmission exceeds
  \<open>1\<close> and exceeds the transmission with \<open>scale_tau = 0\<close>.  At \<open>z = 31\<close>
  the optical depth is negative at the Lyman limit \<open>911.8\<close> itself.  At
  \<open>z = 3\<close>, wavelength \<open>4500\<close>, the transmission with \<open>scale_tau = - 1\<close>
  exceeds \<open>1\<close>.  At \<open>z = 20\<close>, wavelength \<open>25000\<close>, the transmission is
  below \<open>1 / 2 ^ 1075\<close>, half of the least positive double, so that the
  value that the program returns is \<open>0.0\<close>, outside \<open>(0, 1]\<close>.
\<close>

theorem compute_igm_range_counterexample:
  "\<not> (compute_igm 1 [0.8904296875] 1 ! 0 \<le> 1) \<and>
   \<not> (compute_igm 1 [0.8904296875] 1 ! 0 \<le> compute_igm 1 [0.8904296875] 0 ! 0) \<and>
   \<not> (compute_igm 31 [911.8] 1 ! 0 \<le> 1) \<and>
   \<not> (compute_igm 3 [4500] (- 1) ! 0 \<le> 1) \<and>
   compute_igm 20 [25000] 1 ! 0 < 1 / 2 ^ 1075"
proof -
  have "compute_igm 20 [25000] 1 ! 0 = exp (- igm_pixel 20 25000 0)"
    by (simp add: compute_igm_def igm_tau_map)
  then have "compute_igm 20 [25000] 1 ! 0 < 1 / 2 ^ 1075"
    using exp_below_least_double[OF igm_pixel_large] by (simp only:)
  moreover have "\<not> (compute_igm 1 [0.8904296875] 1 ! 0 \<le> 1)"
    "\<not> (compute_igm 1 [0.8904296875] 1 ! 0 \<le> compute_igm 1 [0.8904296875] 0 ! 0)"
    "\<not> (compute_igm 31 [911.8] 1 ! 0 \<le> 1)"
    "\<not> (compute_igm 3 [4500] (- 1) ! 0 \<le> 1)"
    using igm_pixel_negative igm_pixel_high_redshift_negative igm_pixel_positive
    by (simp_all add: compute_igm_def igm_tau_map)
  ultimately show ?thesis by (intro conjI)
qed

theorem compute_igm_range_witness:
  "(0::real) < 3 \<and> (0::nat) < length [3000::real] \<and> lamL \<le> [3000] ! 0 \<and>
   (3::real) \<le> 20 \<and> [3000] ! 0 < lamL * (1 + 3) \<and> [3000::real] ! 0 < 1215.67 * (1 + 3) \<and>
   0 < igm_tau 3 [3000] ! 0 \<and>
   0 \<le> compute_igm 3 [3000] 1 ! 0 \<and> compute_igm 3 [3000] 1 ! 0 \<le> 1 \<and>
   compute_igm 3 [3000] 2 ! 0 \<le> compute_igm 3 [3000] 1 ! 0"
  using compute_igm_range [of 3 0 "[3000]" 1] by (simp add: lamL_def)

section \<open>Properties of pixel\_integrated\_gaussian\_numba and sample\_gaussian\_line\_numba\<close>


lemma and_then_simps [simp]:
  "and_then (Inr v) f = f v"
  "and_then (Inl e) f = Inl e"
  by (simp_all add: and_then_def)

lemma getitem_nat: "getitem a (int i) = (if i < length a then Inr (a ! i) else Inl IndexOutOfBounds)"
  by (simp add: getitem_def py_index_def)

lemma setitem_nat: "setitem a (int i) v = (if i < length a then Inr (a[i := v]) else Inl IndexOutOfBounds)"
  by (simp add: setitem_def py_index_def)

lemma length_ones_like [simp]: "length (ones_like x) = length x"
  by (simp add: ones_like_def)

lemma length_zeros_like [simp]: "length (zeros_like x) = length x"
  by (simp add: zeros_like_def)

lemma gradient_widths_short: "length x < 2 \<Longrightarrow> gradient_widths x = Inl IndexOutOfBounds"
proof -
  assume "length x < 2"
  then consider "x = []" | a where "x = [a]"
    by (cases x; cases "tl x") auto
  then show ?thesis
    by cases (simp_all add: gradient_widths_def getslice_def slice_bound_def broadcast2_def
        setslice_def ones_like_def getitem_def py_index_def)
qed

lemma gradient_widths_long:
  assumes "2 \<le> length x"
  shows "gradient_widths x =
     Inr (map (\<lambda>i. if i = length x - 1 then x ! (length x - 1) - x ! (length x - 2)
                    else if i = 0 then x ! 1 - x ! 0
                    else (x ! (i + 1) - x ! (i - 1)) / 2) [0..<length x])"
proof -
  let ?N = "length x"
  have s1: "getslice x 2 (int ?N) = drop 2 x"
    using assms by (simp add: getslice_def slice_bound_def)
  have n2: "nat (int ?N - 2) = ?N - 2" by linarith
  have s2: "getslice x 0 (- 2) = take (?N - 2) x"
    using assms by (simp add: getslice_def slice_bound_def n2 numeral_2_eq_2)
  define d where "d = map2 (-) (drop 2 x) (take (?N - 2) x)"
  have ld: "length d = ?N - 2" by (simp add: d_def)
  have b: "broadcast2 (-) (drop 2 x) (take (?N - 2) x) = Inr d"
    by (simp add: broadcast2_def d_def)
  define v where "v = map (\<lambda>u. u / 2.0) d"
  have lv: "length v = ?N - 2" by (simp add: v_def ld)
  have sb: "slice_bound ?N 1 = 1" "slice_bound ?N (- 1) = ?N - 1"
    using assms by (simp_all add: slice_bound_def)
  have tk: "take (Suc 0) (ones_like x) = [1]" "drop (?N - Suc 0) (ones_like x) = [1]"
    using assms by (simp_all add: ones_like_def take_Suc_conv_app_nth replicate_append_same)
  have ss: "setslice (ones_like x) 1 (- 1) v = Inr (1 # v @ [1])"
  proof -
    have "max 1 (?N - 1) = ?N - 1" "length v = ?N - 1 - 1"
      using assms lv by simp_all
    then show ?thesis
      unfolding setslice_def by (simp add: sb tk Let_def)
  qed
  have g: "getitem x 1 = Inr (x ! 1)" "getitem x 0 = Inr (x ! 0)"
    "getitem x (- 1) = Inr (x ! (?N - 1))" "getitem x (- 2) = Inr (x ! (?N - 2))"
    using assms by (auto simp: getitem_def py_index_def nat_diff_distrib nat_add_distrib)
  define w where "w = 1 # v @ [1]"
  have lw: "length w = ?N" using assms lv by (simp add: w_def)
  have wn: "w ! i = (x ! (i + 1) - x ! (i - 1)) / 2" if "0 < i" "i < ?N - 1" for i
  proof -
    have iv: "i - 1 < length v" using that lv by linarith
    have "w ! i = (v @ [1]) ! (i - 1)"
      using that by (simp add: w_def nth_Cons')
    also have "\<dots> = v ! (i - 1)"
      using iv by (simp add: nth_append)
    also have "\<dots> = (x ! (i + 1) - x ! (i - 1)) / 2"
      using that lv by (simp add: v_def d_def)
    finally show ?thesis .
  qed
  let ?r = "w[0 := x ! 1 - x ! 0, ?N - 1 := x ! (?N - 1) - x ! (?N - 2)]"
  let ?f = "\<lambda>i. if i = ?N - 1 then x ! (?N - 1) - x ! (?N - 2)
                    else if i = 0 then x ! 1 - x ! 0
                    else (x ! (i + 1) - x ! (i - 1)) / 2"
  have "gradient_widths x =
      and_then (setitem w 0 (x ! 1 - x ! 0))
        (\<lambda>xdx2. setitem xdx2 (- 1) (x ! (?N - 1) - x ! (?N - 2)))"
    unfolding gradient_widths_def s1 s2 b w_def
    by (simp only: and_then_simps ss[unfolded v_def] g v_def)
  also have "\<dots> = Inr ?r"
    using assms lw by (auto simp: setitem_def py_index_def nat_diff_distrib)
  also have "?r = map ?f [0..<?N]"
  proof (rule nth_equalityI)
    show "length ?r = length (map ?f [0..<?N])" by (simp add: lw)
  next
    fix i assume "i < length ?r"
    then have i: "i < ?N" by (simp add: lw)
    show "?r ! i = map ?f [0..<?N] ! i"
      using i lw wn[of i] assms by (auto simp: nth_list_update)
  qed
  finally show ?thesis .
qed

lemma times_array_fits:
  "operand_fits v (length x) \<Longrightarrow>
     times_array v (ones_like x) = Inr (map (operand_at v) [0..<length x])"
proof (cases v)
  case (Scalar s)
  then show ?thesis by (auto simp: ones_like_def intro!: nth_equalityI)
next
  case (Array a)
  assume "operand_fits v (length x)"
  then have l: "length a = length x" using Array by simp
  show ?thesis unfolding Array
    by (auto simp: broadcast2_def l ones_like_def intro!: nth_equalityI)
qed

lemma times_array_one:
  "length x = 1 \<Longrightarrow> \<exists>r. times_array v (ones_like x) = Inr r"
  by (cases v) (simp_all add: broadcast2_def)

lemma operand_at_scale: "operand_at (scale k v) i = (case v of Scalar s \<Rightarrow> k * s | Array a \<Rightarrow> map (\<lambda>u. k * u) a ! i)"
  by (cases v) simp_all

lemma operand_fits_scale [simp]: "operand_fits (scale k v) n = operand_fits v n"
  by (cases v) simp_all

lemma operand_at_scale_fits:
  "operand_fits v n \<Longrightarrow> i < n \<Longrightarrow> operand_at (scale k v) i = k * operand_at v i"
  by (cases v) simp_all

lemma sample_loop_result:
  "(\<forall>i\<in>set js. i < length samp \<and> f i = Inr (g i)) \<Longrightarrow>
     \<exists>r. sample_loop f js samp = Inr r \<and> length r = length samp \<and>
         (\<forall>i<length samp. r ! i = (if i \<in> set js then g i else samp ! i))"
proof (induction js arbitrary: samp)
  case Nil
  then show ?case by simp
next
  case (Cons j js)
  have j: "j < length samp" "f j = Inr (g j)" using Cons.prems by simp_all
  have "\<forall>i\<in>set js. i < length (samp[j := g j]) \<and> f i = Inr (g i)"
    using Cons.prems by simp
  from Cons.IH[OF this] obtain r where
    r: "sample_loop f js (samp[j := g j]) = Inr r" "length r = length samp"
       "\<forall>i<length samp. r ! i = (if i \<in> set js then g i else samp[j := g j] ! i)"
    by auto
  show ?case using j r by (auto simp: setitem_nat nth_list_update)
qed


lemma pixel_integrated_gaussian_all:
  assumes "operand_fits mu (length x)" "operand_fits sigma (length x)"
    and "pixel_widths x dx = Inr w" "length w = length x" "0 < length x"
  shows "\<exists>samp. pixel_integrated_gaussian_numba x mu sigma dx normalization = Inr samp \<and>
           length samp = length x \<and>
           (\<forall>i<length x. samp ! i =
              pixel_formula (x ! i) (operand_at mu i) (operand_at sigma i) (w ! i) normalization)"
proof -
  let ?N = "length x"
  let ?s2dw = "map (operand_at (scale (sqrt 2) sigma)) [0..<?N]"
  let ?mux = "map (operand_at mu) [0..<?N]"
  let ?g = "\<lambda>i. pixel_formula (x ! i) (operand_at mu i) (operand_at sigma i) (w ! i) normalization"
  let ?f = "sample_value x ?mux ?s2dw w normalization"
  have f: "?f j = Inr (?g j)" if "j < ?N" for j
    using that assms(2,4)
    by (simp add: sample_value_def getitem_nat pixel_formula_def Let_def operand_at_scale_fits)
  have "\<forall>j\<in>set [1..<?N]. j < length ((zeros_like x)[0 := ?g 0]) \<and> ?f j = Inr (?g j)"
    by (simp add: f)
  from sample_loop_result[OF this] obtain r where
    r: "sample_loop ?f [1..<?N] ((zeros_like x)[0 := ?g 0]) = Inr r" "length r = ?N"
       "\<forall>i<?N. r ! i = (if i \<in> set [1..<?N] then ?g i else (zeros_like x)[0 := ?g 0] ! i)"
    by auto
  have z: "zeros_like x \<noteq> []" using assms(5) by (simp add: zeros_like_def)
  have "pixel_integrated_gaussian_numba x mu sigma dx normalization = Inr r"
    using assms(5) f[of 0] r(1) z
    by (simp add: pixel_integrated_gaussian_numba_def times_array_fits assms(1,2,3) Let_def
          setitem_def py_index_def)
  moreover have "r ! i = ?g i" if "i < ?N" for i
    using r(3) that by (cases "i = 0") auto
  ultimately show ?thesis using r(2) by blast
qed




text \<open>
  C7: for \<open>N \<ge> 2\<close> samples and no \<open>dx\<close>, the widths are the centred difference
  at the interior samples and the one-sided difference at the two ends.
\<close>

theorem derived_pixel_widths:
  assumes "2 \<le> length x"
  shows "\<exists>w. pixel_widths x None = Inr w \<and> length w = length x \<and>
           w ! 0 = x ! 1 - x ! 0 \<and>
           w ! (length x - 1) = x ! (length x - 1) - x ! (length x - 2) \<and>
           (\<forall>i. 1 \<le> i \<and> i \<le> length x - 2 \<longrightarrow> w ! i = (x ! (i + 1) - x ! (i - 1)) / 2)"
proof -
  let ?N = "length x"
  let ?f = "\<lambda>i. if i = ?N - 1 then x ! (?N - 1) - x ! (?N - 2)
                    else if i = 0 then x ! 1 - x ! 0
                    else (x ! (i + 1) - x ! (i - 1)) / 2"
  have w: "pixel_widths x None = Inr (map ?f [0..<?N])"
    by (simp add: pixel_widths_def gradient_widths_long[OF assms])
  have n: "map ?f [0..<?N] ! i = ?f i" if "i < ?N" for i
    using that by simp
  have "map ?f [0..<?N] ! 0 = x ! 1 - x ! 0"
    using assms by (subst n) auto
  moreover have "map ?f [0..<?N] ! (?N - 1) = x ! (?N - 1) - x ! (?N - 2)"
    using assms by (subst n) auto
  moreover have "map ?f [0..<?N] ! i = (x ! (i + 1) - x ! (i - 1)) / 2"
    if "1 \<le> i \<and> i \<le> ?N - 2" for i
    using assms that by (subst n) auto
  ultimately show ?thesis using w by (intro exI[of _ "map ?f [0..<?N]"]) simp
qed

theorem derived_pixel_widths_witness:
  "2 \<le> length [1, 2, 4, 8 :: real] \<and>
   pixel_widths [1, 2, 4, 8] None = Inr [1, 3 / 2, 3, 4]"
  using derived_pixel_widths [of "[1, 2, 4, 8]"]
  by (simp add: pixel_widths_def gradient_widths_long)

lemma np_interp_ok:
  "xp \<noteq> [] \<Longrightarrow> length fp = length xp \<Longrightarrow> \<exists>r. np_interp x xp fp = Inr r"
  by (simp add: np_interp_def)

lemma line_width_ok:
  "xp \<noteq> [] \<Longrightarrow> length fp = length xp \<Longrightarrow> \<exists>dw. line_width xp fp line_um v = Inr dw"
  using np_interp_ok[of xp fp line_um] by (auto simp: line_width_def)

lemma pixel_integrated_gaussian_one:
  assumes "length x = 1"
  shows "pixel_integrated_gaussian_numba x mu sigma None normalization = Inl IndexOutOfBounds"
proof -
  obtain s2dw where a: "times_array (scale (sqrt 2) sigma) (ones_like x) = Inr s2dw"
    using times_array_one[OF assms] by blast
  obtain mux where b: "times_array mu (ones_like x) = Inr mux"
    using times_array_one[OF assms] by blast
  have c: "pixel_widths x None = Inl IndexOutOfBounds"
    using assms by (simp add: pixel_widths_def gradient_widths_short)
  show ?thesis
    by (simp add: pixel_integrated_gaussian_numba_def a b c)
qed

lemma pixel_widths_None_iff: "(\<exists>w. pixel_widths x None = Inr w) \<longleftrightarrow> 2 \<le> length x"
proof (cases "2 \<le> length x")
  case True
  then show ?thesis by (simp add: pixel_widths_def gradient_widths_long)
next
  case False
  then have "length x < 2" by simp
  then show ?thesis by (simp add: pixel_widths_def gradient_widths_short)
qed

lemma pixel_integrated_gaussian_scalar_iff:
  "(\<exists>r. pixel_integrated_gaussian_numba x (Scalar m) (Scalar s) None normalization = Inr r)
     \<longleftrightarrow> 2 \<le> length x"
proof (cases "2 \<le> length x")
  case True
  then obtain w where w: "pixel_widths x None = Inr w" "length w = length x"
    by (auto simp: pixel_widths_def gradient_widths_long)
  have "0 < length x" using True by linarith
  from pixel_integrated_gaussian_all[OF _ _ w this, of "Scalar m" "Scalar s" normalization]
  show ?thesis using True by auto
next
  case False
  then have "pixel_widths x None = Inl IndexOutOfBounds"
    by (simp add: pixel_widths_def gradient_widths_short)
  then show ?thesis using False
    by (simp add: pixel_integrated_gaussian_numba_def)
qed

text \<open>
  C10: on one sample and no \<open>dx\<close> the reads \<open>x[1]\<close> and \<open>x[-2]\<close> are outside the
  array and the result is the error; the derivation of the widths succeeds exactly
  for \<open>N \<ge> 2\<close>, and so does the line sampler on a grid with its resolution array.
\<close>

theorem dx_omitted_needs_two_samples:
  "(length x = 1 \<longrightarrow>
      getitem x 1 = Inl IndexOutOfBounds \<and> getitem x (- 2) = Inl IndexOutOfBounds \<and>
      pixel_integrated_gaussian_numba x mu sigma None normalization = Inl IndexOutOfBounds) \<and>
   ((\<exists>w. pixel_widths x None = Inr w) \<longleftrightarrow> 2 \<le> length x) \<and>
   (length spec_R_fwhm = length x \<longrightarrow>
      ((\<exists>r. sample_gaussian_line_numba x spec_R_fwhm line_um line_flux velocity_sigma = Inr r)
         \<longleftrightarrow> 2 \<le> length x))"
proof (intro conjI impI)
  assume "length x = 1"
  then show "getitem x 1 = Inl IndexOutOfBounds" "getitem x (- 2) = Inl IndexOutOfBounds"
    by (simp_all add: getitem_def py_index_def)
next
  assume "length x = 1"
  then show "pixel_integrated_gaussian_numba x mu sigma None normalization = Inl IndexOutOfBounds"
    by (rule pixel_integrated_gaussian_one)
next
  show "(\<exists>w. pixel_widths x None = Inr w) \<longleftrightarrow> 2 \<le> length x"
    by (rule pixel_widths_None_iff)
next
  assume l: "length spec_R_fwhm = length x"
  show "(\<exists>r. sample_gaussian_line_numba x spec_R_fwhm line_um line_flux velocity_sigma = Inr r)
         \<longleftrightarrow> 2 \<le> length x"
  proof (cases "x = []")
    case True
    then show ?thesis using l
      by (simp add: sample_gaussian_line_numba_def line_width_def np_interp_def)
  next
    case False
    then obtain dw where "line_width x spec_R_fwhm line_um velocity_sigma = Inr dw"
      using line_width_ok[OF False l] by blast
    then show ?thesis
      using pixel_integrated_gaussian_scalar_iff[of x line_um dw line_flux]
      by (simp add: sample_gaussian_line_numba_def)
  qed
qed

theorem dx_omitted_needs_two_samples_witness:
  "length [5 :: real] = 1 \<and> length [1000 :: real] = length [5 :: real] \<and>
   getitem [5] 1 = Inl IndexOutOfBounds \<and> getitem [5] (- 2) = Inl IndexOutOfBounds \<and>
   pixel_integrated_gaussian_numba [5] (Scalar 5) (Scalar 1) None 1 = Inl IndexOutOfBounds \<and>
   \<not> (\<exists>r. sample_gaussian_line_numba [5] [1000] 5 1 100 = Inr r)"
  using dx_omitted_needs_two_samples [of "[5]" "Scalar 5" "Scalar 1" 1 "[1000]" 5 1 100]
  by simp

section \<open>Properties of resample\_template\_numba\<close>


lemma kernel_width_code:
  "sqrt ((v / 300000) ^ 2 + (1.0 / 2.35 / R) ^ 2) * w = kernel_width_spec 300000 w v R"
  by (simp add: kernel_width_spec_def mult.commute)

lemma kernel_widths_equal_lengths:
  assumes "length spec_R_fwhm = length spec_wobs"
  shows "kernel_widths spec_wobs spec_R_fwhm v =
     Inr (map (\<lambda>i. kernel_width_spec 300000 (spec_wobs ! i) v (spec_R_fwhm ! i))
            [0..<length spec_wobs])"
  unfolding kernel_widths_def broadcast2_def using assms
  by (auto simp: kernel_width_spec_def mult.commute intro!: nth_equalityI)

text \<open>
  C2, as amended: in both functions the kernel width is
  \<open>wavelength * sqrt ((velocity_sigma / c)\<^sup>2 + (1 / (2.35 R))\<^sup>2)\<close> with the constant
  \<open>c = 300000\<close>: in the line sampler at \<open>line_um\<close> with \<open>R\<close> the resolution
  interpolated at \<open>line_um\<close>, in the resampler at every pixel \<open>i\<close> with
  \<open>spec_wobs[i]\<close> and \<open>spec_R_fwhm[i]\<close>.
\<close>

theorem kernel_width_formula:
  "(np_interp line_um spec_wobs spec_R_fwhm = Inr Rw \<longrightarrow>
      line_width spec_wobs spec_R_fwhm line_um velocity_sigma
        = Inr (kernel_width_spec 300000 line_um velocity_sigma Rw) \<and>
      sample_gaussian_line_numba spec_wobs spec_R_fwhm line_um line_flux velocity_sigma
        = pixel_integrated_gaussian_numba spec_wobs (Scalar line_um)
            (Scalar (kernel_width_spec 300000 line_um velocity_sigma Rw)) None line_flux) \<and>
   (length spec_R_fwhm = length spec_wobs \<longrightarrow>
      (\<exists>dw. kernel_widths spec_wobs spec_R_fwhm velocity_sigma = Inr dw \<and>
            length dw = length spec_wobs \<and>
            (\<forall>i<length spec_wobs.
               dw ! i = kernel_width_spec 300000 (spec_wobs ! i) velocity_sigma (spec_R_fwhm ! i))))"
  by (simp add: line_width_def sample_gaussian_line_numba_def kernel_widths_equal_lengths)
     (simp add: kernel_width_spec_def mult.commute)

theorem kernel_width_formula_witness:
  "np_interp 1.5 [1, 2] [1000, 2000] = Inr 1500 \<and>
   length [1000, 2000 :: real] = length [1, 2 :: real] \<and>
   line_width [1, 2] [1000, 2000] 1.5 100 = Inr (kernel_width_spec 300000 1.5 100 1500) \<and>
   (\<exists>dw. kernel_widths [1, 2] [1000, 2000] 100 = Inr dw \<and>
         length dw = length [1, 2 :: real] \<and>
         (\<forall>i<length [1, 2 :: real].
            dw ! i = kernel_width_spec 300000 ([1, 2] ! i) 100 ([1000, 2000] ! i)))"
  using kernel_width_formula [of "1.5" "[1, 2]" "[1000, 2000]" 1500 100 1]
  by (simp add: np_interp_def)

text \<open>
  C2 as stated fails: with the constant \<open>299800\<close> of the claim the width differs from
  the one the code computes, in the line sampler and in the resampler.
\<close>

theorem kernel_width_formula_counterexample:
  "line_width [1, 2] [1000, 2000] 1.5 100 \<noteq> Inr (kernel_width_spec 299800 1.5 100 1500) \<and>
   kernel_widths [1, 2] [1000, 2000] 100
     \<noteq> Inr [kernel_width_spec 299800 1 100 1000, kernel_width_spec 299800 2 100 2000]"
  by (simp add: line_width_def np_interp_def kernel_widths_def broadcast2_def
        kernel_width_spec_def)

lemma advance_ilo_bounds:
  "k \<le> advance_ilo t e k \<and> advance_ilo t e k \<le> max k (int (length t) - 1)"
proof (induction t e k rule: advance_ilo.induct)
  case (1 t e k)
  show ?case
  proof (cases "(t ! nat k < e) \<and> (k < int (length t) - 1)")
    case True
    then show ?thesis using 1 by (subst (1 2) advance_ilo.simps) auto
  next
    case False
    then show ?thesis by (subst (1 2) advance_ilo.simps) auto
  qed
qed

lemma advance_ihi_bounds:
  "k \<le> advance_ihi t e k \<and> advance_ihi t e k \<le> max k (int (length t))"
proof (induction t e k rule: advance_ihi.induct)
  case (1 t e k)
  show ?case
  proof (cases "(t ! nat k < e) \<and> (k < int (length t))")
    case True
    then show ?thesis using 1 by (subst (1 2) advance_ihi.simps) auto
  next
    case False
    then show ?thesis by (subst (1 2) advance_ihi.simps) auto
  qed
qed

lemma lower_window_bounds:
  assumes "window_ok (length t) s" "lower_window t e s = Some s1"
  shows "0 \<le> ilo s1" "ilo s1 \<le> int (length t) - 2" "ihi s1 = ihi s" "resamp s1 = resamp s"
  using assms advance_ilo_bounds[of "ilo s" t e]
  by (auto simp: lower_window_def window_ok_def Let_def split: if_splits)

lemma upper_window_ok:
  assumes "0 \<le> ilo s" "ilo s \<le> int (length t) - 2" "1 \<le> ihi s" "ihi s \<le> int (length t)"
    and "upper_window t f e w d i s = Inr (Next s')"
  shows "window_ok (length t) s'"
  using assms advance_ihi_bounds[of "ihi s" t e]
  by (auto simp: upper_window_def window_ok_def Let_def and_then_def
        split: if_splits sum.splits)

lemma upper_window_no_break:
  assumes "ilo s \<le> int (length t) - 2"
  shows "upper_window t f e w d i s \<noteq> Inr (Break s')"
  using assms
  by (auto simp: upper_window_def Let_def and_then_def split: if_splits sum.splits)

lemma pixel_body_ok:
  assumes "window_ok (length t) s" "pixel_body sw dw t f nsig i s = Inr (Next s')"
  shows "window_ok (length t) s'"
proof -
  from assms(2) obtain w d where
    b: "(case lower_window t (w - nsig * d) s of
           None \<Rightarrow> Inr (Next (s\<lparr>ilo := 0\<rparr>))
         | Some s1 \<Rightarrow> upper_window t f (w + nsig * d) w d i s1) = Inr (Next s')"
    by (auto simp: pixel_body_def and_then_def split: sum.splits)
  show ?thesis
  proof (cases "lower_window t (w - nsig * d) s")
    case None
    then show ?thesis using b assms(1) by (auto simp: window_ok_def)
  next
    case (Some s1)
    have u: "upper_window t f (w + nsig * d) w d i s1 = Inr (Next s')"
      using b Some by simp
    have "1 \<le> ihi s1" "ihi s1 \<le> int (length t)"
      using lower_window_bounds(3)[OF assms(1) Some] assms(1) by (simp_all add: window_ok_def)
    with lower_window_bounds(1,2)[OF assms(1) Some] u
    show ?thesis by (intro upper_window_ok[of s1 t f "w + nsig * d" w d i s'])
  qed
qed

lemma pixel_body_no_break:
  assumes "window_ok (length t) s"
  shows "pixel_body sw dw t f nsig i s \<noteq> Inr (Break s')"
proof
  assume a: "pixel_body sw dw t f nsig i s = Inr (Break s')"
  then obtain w d where
    b: "(case lower_window t (w - nsig * d) s of
           None \<Rightarrow> Inr (Next (s\<lparr>ilo := 0\<rparr>))
         | Some s1 \<Rightarrow> upper_window t f (w + nsig * d) w d i s1) = Inr (Break s')"
    by (auto simp: pixel_body_def and_then_def split: sum.splits)
  show False
  proof (cases "lower_window t (w - nsig * d) s")
    case None
    then show ?thesis using b by simp
  next
    case (Some s1)
    from lower_window_bounds(2)[OF assms Some] b Some upper_window_no_break[of s1 t f _ w d i s']
    show ?thesis by auto
  qed
qed

lemma iteration_start_ok:
  assumes "1 \<le> length t"
    and "iteration_start (pixel_body sw dw t f nsig) (initial_window sw fv) k s"
  shows "window_ok (length t) s"
  using assms(2)
proof (induction rule: iteration_start.induct)
  case first
  then show ?case using assms(1) by (auto simp: window_ok_def initial_window_def)
next
  case (following k s s')
  then show ?case using pixel_body_ok by blast
qed

lemma run_pixels_from_iteration:
  "iteration_start body s0 k s \<Longrightarrow> k \<le> N \<Longrightarrow>
     run_pixels body [0..<N] s0 = run_pixels body [k..<N] s"
proof (induction rule: iteration_start.induct)
  case first
  then show ?case by simp
next
  case (following k s s')
  then have "k < N" by simp
  then have "[k..<N] = k # [Suc k..<N]" by (simp add: upt_conv_Cons)
  then show ?case using following by simp
qed

text \<open>
  C9: for a template of \<open>Nt \<ge> 1\<close> samples, with its flux array of the same length,
  in every iteration of the loop over the pixels the state after the back-step of
  \<open>ilo\<close> has \<open>0 \<le> ilo \<le> Nt - 2\<close> and \<open>1 \<le> ihi \<le> Nt\<close>; and when the search for
  \<open>ihi\<close> ends with \<open>ilo \<ge> ihi\<close>, then \<open>ihi \<le> Nt - 2\<close> and the read of
  \<open>templ_flux[ihi]\<close> is inside the array.
\<close>

theorem window_invariant:
  assumes "1 \<le> length templ_wobs" "length templ_flux = length templ_wobs"
    and "iteration_start (pixel_body spec_wobs dw templ_wobs templ_flux nsig)
           (initial_window spec_wobs fill_value) k s"
    and "lower_window templ_wobs lower_edge s = Some s1"
  shows "0 \<le> ilo s1 \<and> ilo s1 \<le> int (length templ_wobs) - 2 \<and>
         1 \<le> ihi s1 \<and> ihi s1 \<le> int (length templ_wobs) \<and>
         (\<forall>upper_edge.
            ilo s1 \<ge> advance_ihi templ_wobs upper_edge (ihi s1) \<longrightarrow>
              advance_ihi templ_wobs upper_edge (ihi s1) \<le> int (length templ_wobs) - 2 \<and>
              getitem templ_flux (advance_ihi templ_wobs upper_edge (ihi s1))
                = Inr (templ_flux ! nat (advance_ihi templ_wobs upper_edge (ihi s1))))"
proof -
  have ok: "window_ok (length templ_wobs) s"
    using iteration_start_ok[OF assms(1,3)] .
  note lw = lower_window_bounds[OF ok assms(4)]
  have hi: "1 \<le> ihi s1" "ihi s1 \<le> int (length templ_wobs)"
    using lw(3) ok by (simp_all add: window_ok_def)
  have "advance_ihi templ_wobs e (ihi s1) \<le> int (length templ_wobs) - 2 \<and>
        getitem templ_flux (advance_ihi templ_wobs e (ihi s1))
          = Inr (templ_flux ! nat (advance_ihi templ_wobs e (ihi s1)))"
    if "ilo s1 \<ge> advance_ihi templ_wobs e (ihi s1)" for e
    using that lw(2) hi(1) advance_ihi_bounds[of "ihi s1" templ_wobs e] assms(2)
    by (auto simp: getitem_def py_index_def)
  then show ?thesis using lw(1,2) hi by blast
qed

theorem window_invariant_witness:
  "1 \<le> length [1, 2, 3, 4 :: real] \<and>
   length [10, 20, 30, 40 :: real] = length [1, 2, 3, 4 :: real] \<and>
   iteration_start (pixel_body [5] [1] [1, 2, 3, 4] [10, 20, 30, 40] (- 5))
     (initial_window [5] 0) 0 (initial_window [5] 0) \<and>
   lower_window [1, 2, 3, 4] (5 - (- 5) * 1) (initial_window [5] 0)
     = Some \<lparr>ilo = 2, ihi = 1, resamp = [0]\<rparr> \<and>
   advance_ihi [1, 2, 3, 4] (5 + (- 5) * 1) 1 = 1 \<and>
   getitem [10, 20, 30, 40] 1 = Inr 20"
proof -
  have lw: "lower_window [1, 2, 3, 4] (5 - (- 5) * 1) (initial_window [5] 0)
     = Some \<lparr>ilo = 2, ihi = 1, resamp = [0]\<rparr>"
    by (simp add: lower_window_def initial_window_def zeros_like_def advance_ilo.simps)
  have hi: "advance_ihi [1, 2, 3, 4] (5 + (- 5) * 1) 1 = 1"
    by (simp add: advance_ihi.simps)
  have st: "iteration_start (pixel_body [5] [1] [1, 2, 3, 4] [10, 20, 30, 40] (- 5))
     (initial_window [5] 0) 0 (initial_window [5] 0)"
    by (rule iteration_start.first)
  show ?thesis
    using window_invariant [of "[1, 2, 3, 4]" "[10, 20, 30, 40]" "[5]" "[1]" "- 5" 0 0
        "initial_window [5] 0" "5 - (- 5) * 1" "\<lparr>ilo = 2, ihi = 1, resamp = [0]\<rparr>", OF _ _ st lw]
      lw hi st
    by (simp add: getitem_def py_index_def)
qed

lemma initial_window_zero:
  "initial_window spec_wobs fill_value
     = \<lparr>ilo = 0, ihi = 1, resamp = replicate (length spec_wobs) 0\<rparr>"
  by (simp add: initial_window_def zeros_like_def)

lemma advance_ilo_stop: "\<not> t ! nat k < e \<Longrightarrow> advance_ilo t e k = k"
  by (subst advance_ilo.simps) simp

lemma advance_ilo_last: "int (length t) - 1 \<le> k \<Longrightarrow> advance_ilo t e k = k"
  by (subst advance_ilo.simps) simp

lemma advance_ilo_step:
  "t ! nat k < e \<Longrightarrow> k < int (length t) - 1 \<Longrightarrow> advance_ilo t e k = advance_ilo t e (k + 1)"
  by (subst advance_ilo.simps) simp

lemma advance_ihi_stop: "\<not> t ! nat k < e \<Longrightarrow> advance_ihi t e k = k"
  by (subst advance_ihi.simps) simp

lemma advance_ihi_last: "int (length t) \<le> k \<Longrightarrow> advance_ihi t e k = k"
  by (subst advance_ihi.simps) simp

lemma advance_ihi_step:
  "t ! nat k < e \<Longrightarrow> k < int (length t) \<Longrightarrow> advance_ihi t e k = advance_ihi t e (k + 1)"
  by (subst advance_ihi.simps) simp

lemma kernel_width_spec_nonneg: "0 \<le> w \<Longrightarrow> 0 \<le> kernel_width_spec c w v R"
  by (simp add: kernel_width_spec_def)

text \<open>
  C1 fails on the code: the output starts as \<open>zeros * fill_value\<close>, which is \<open>0\<close>
  and not \<open>fill_value\<close>.  The pixel at wavelength \<open>1\<close> lies below the template
  \<open>[2, 3]\<close>, is skipped, and is returned as \<open>0\<close> with \<open>fill_value = 7\<close>.
\<close>

theorem skipped_pixel_is_zero:
  "resample_template_numba [1] [1000] [2, 3] [1, 1] 100 5 7 = Inr [0]"
proof -
  define d where "d = kernel_width_spec 300000 1 100 1000"
  have d: "0 \<le> d" unfolding d_def by (rule kernel_width_spec_nonneg) simp
  have kw: "kernel_widths [1] [1000] 100 = Inr [d]"
    using kernel_widths_equal_lengths[of "[1000]" "[1]" 100] by (simp add: d_def)
  have "\<not> [2, 3] ! nat 0 < 1 - 5 * d" using d by simp
  then have lo: "advance_ilo [2, 3] (1 - 5 * d) 0 = 0" by (rule advance_ilo_stop)
  have "pixel_body [1] [d] [2, 3] [1, 1] 5 0 (initial_window [1] 7)
          = Inr (Next (initial_window [1] 7))"
    by (simp add: pixel_body_def getitem_def py_index_def lower_window_def
          initial_window_zero lo)
  then show ?thesis
    by (simp add: resample_template_numba_def kw initial_window_zero)
qed

lemma advance_ilo_exhausts:
  assumes "3 < e" "0 \<le> k" "k \<le> 2"
  shows "advance_ilo [1, 2, 3] e k = 2"
proof -
  have l: "advance_ilo [1, 2, 3] e 2 = 2" by (rule advance_ilo_last) simp
  have m: "advance_ilo [1, 2, 3] e 1 = 2"
    using assms(1) l by (subst advance_ilo_step) simp_all
  have n: "advance_ilo [1, 2, 3] e 0 = 2"
    using assms(1) m by (subst advance_ilo_step) simp_all
  from assms(2,3) consider "k = 0" | "k = 1" | "k = 2" by linarith
  then show ?thesis using l m n by cases simp_all
qed

lemma advance_ihi_exhausts:
  assumes "3 < e" "1 \<le> k" "k \<le> 3"
  shows "advance_ihi [1, 2, 3] e k = 3"
proof -
  have l: "advance_ihi [1, 2, 3] e 3 = 3" by (rule advance_ihi_last) simp
  have m: "advance_ihi [1, 2, 3] e 2 = 3"
    using assms(1) l by (subst advance_ihi_step) simp_all
  have n: "advance_ihi [1, 2, 3] e 1 = 3"
    using assms(1) m by (subst advance_ihi_step) simp_all
  from assms(2,3) consider "k = 1" | "k = 2" | "k = 3" by linarith
  then show ?thesis using l m n by cases simp_all
qed

lemma trapz_two: "trapz [a, b] [p, q] = Inr ((q - p) * (b + a) / 2)"
  by (simp add: trapz_def diff_def broadcast2_def)

lemma gaussian_weight_pos: "d \<noteq> 0 \<Longrightarrow> 0 < exp (- ((l - w) ^ 2) / 2 / d ^ 2) / sqrt (2 * pi * d ^ 2)"
  by simp

lemma pixel_body_exhausted:
  assumes "0 < d" "3 < w - 5 * d"
    and "getitem sw (int i) = Inr w" "getitem dw (int i) = Inr d"
    and "i < length (resamp s)" "0 \<le> ilo s" "ilo s \<le> 2" "1 \<le> ihi s" "ihi s \<le> 3"
  shows "\<exists>v. 0 < v \<and>
           pixel_body sw dw [1, 2, 3] [1, 1, 1] 5 i s
             = Inr (Next \<lparr>ilo = 1, ihi = 3, resamp = (resamp s)[i := v]\<rparr>)"
proof -
  have lo: "advance_ilo [1, 2, 3] (w - 5 * d) (ilo s) = 2"
    using assms by (intro advance_ilo_exhausts) simp_all
  have hi: "advance_ihi [1, 2, 3] (w + 5 * d) (ihi s) = 3"
    using assms by (intro advance_ihi_exhausts) simp_all
  have lw: "lower_window [1, 2, 3] (w - 5 * d) s = Some (s\<lparr>ilo := 1\<rparr>)"
    by (simp add: lower_window_def lo)
  have sl: "getslice [1, 2, 3] 1 3 = [2, 3]" "getslice [1, 1, 1] 1 3 = [1, 1]"
    by (simp_all add: getslice_def slice_bound_def eval_nat_numeral)
  define g2 where "g2 = exp (- ((2 - w) ^ 2) / 2 / d ^ 2) / sqrt (2 * pi * d ^ 2)"
  define g3 where "g3 = exp (- ((3 - w) ^ 2) / 2 / d ^ 2) / sqrt (2 * pi * d ^ 2)"
  have g: "0 < g2" "0 < g3"
    unfolding g2_def g3_def using assms(1) by (simp_all add: gaussian_weight_pos)
  have gw: "gaussian_weights [2, 3] w d = [g2, g3]"
    by (simp add: gaussian_weights_def g2_def g3_def)
  have uw: "upper_window [1, 2, 3] [1, 1, 1] (w + 5 * d) w d i (s\<lparr>ilo := 1\<rparr>)
      = Inr (Next \<lparr>ilo = 1, ihi = 3, resamp = (resamp s)[i := (g3 + g2) / 2]\<rparr>)"
    using assms(5)
    by (simp add: upper_window_def hi Let_def sl gw broadcast2_def trapz_two setitem_nat)
  have "pixel_body sw dw [1, 2, 3] [1, 1, 1] 5 i s
      = Inr (Next \<lparr>ilo = 1, ihi = 3, resamp = (resamp s)[i := (g3 + g2) / 2]\<rparr>)"
    by (simp add: pixel_body_def assms(3,4) lw uw)
  moreover have "0 < (g3 + g2) / 2" using g by simp
  ultimately show ?thesis by blast
qed


lemma kernel_width_small:
  assumes "0 < w"
  shows "0 < kernel_width_spec 300000 w 100 1000"
    "kernel_width_spec 300000 w 100 1000 \<le> w * (6 / 10000)"
proof -
  define a :: real where "a = (100 / 300000) ^ 2 + (1 / (2.35 * 1000)) ^ 2"
  have a: "0 < a" "a \<le> (6 / 10000) ^ 2" by (simp_all add: a_def power2_eq_square)
  have s: "0 < sqrt a" using a(1) by simp
  have "sqrt a \<le> sqrt ((6 / 10000) ^ 2)" using a(2) by (rule real_sqrt_le_mono)
  then have u: "sqrt a \<le> 6 / 10000" by simp
  have k: "kernel_width_spec 300000 w 100 1000 = w * sqrt a"
    by (simp add: kernel_width_spec_def a_def)
  show "0 < kernel_width_spec 300000 w 100 1000"
    unfolding k using assms s by (rule mult_pos_pos)
  show "kernel_width_spec 300000 w 100 1000 \<le> w * (6 / 10000)"
    unfolding k using assms u by (intro mult_left_mono) simp_all
qed

lemma loop_never_breaks:
  assumes "1 \<le> length t"
    and "iteration_start (pixel_body sw dw t f nsig) (initial_window sw fv) k s"
  shows "pixel_body sw dw t f nsig k s \<noteq> Inr (Break s')"
  using pixel_body_no_break[OF iteration_start_ok[OF assms]] .

text \<open>
  C3 fails on the code: the test \<open>ilo == Nt - 1\<close> comes after \<open>ilo -= 1\<close>, where
  \<open>ilo \<le> Nt - 2\<close>, so the loop never ends early.  On the template \<open>[1, 2, 3]\<close> the
  search for the pixel at wavelength \<open>3.01\<close> brings \<open>ilo\<close> to the last index \<open>2\<close>,
  and yet this pixel and the next one, at \<open>3.012\<close>, receive a computed, positive
  value (the Gaussian weight of the template sample at \<open>3\<close> is about \<open>1.5e-6\<close> and
  \<open>3.9e-10\<close>) instead of \<open>fill_value = - 1\<close>.
\<close>

theorem exhausted_template_continues:
  "advance_ilo [1, 2, 3] (3.01 - 5 * kernel_width_spec 300000 3.01 100 1000) 0 = 2 \<and>
   (\<exists>r. resample_template_numba [3.01, 3.012] [1000, 1000] [1, 2, 3] [1, 1, 1] 100 5 (- 1)
          = Inr r \<and>
        0 < r ! 0 \<and> 0 < r ! 1)"
proof -
  define d0 where "d0 = kernel_width_spec 300000 3.01 100 1000"
  define d1 where "d1 = kernel_width_spec 300000 3.012 100 1000"
  have d0: "0 < d0" "d0 \<le> 3.01 * (6 / 10000)"
    unfolding d0_def by (rule kernel_width_small; simp)+
  have d1: "0 < d1" "d1 \<le> 3.012 * (6 / 10000)"
    unfolding d1_def by (rule kernel_width_small; simp)+
  have e0: "3 < 3.01 - 5 * d0" using d0(2) by simp
  have e1: "3 < 3.012 - 5 * d1" using d1(2) by simp
  have kw: "kernel_widths [3.01, 3.012] [1000, 1000] 100 = Inr [d0, d1]"
    using kernel_widths_equal_lengths[of "[1000, 1000]" "[3.01, 3.012]" 100]
    by (simp add: d0_def d1_def upt_conv_Cons)
  let ?body = "pixel_body [3.01, 3.012] [d0, d1] [1, 2, 3] [1, 1, 1] 5"
  let ?s0 = "initial_window [3.01, 3.012] (- 1)"
  have s0: "?s0 = \<lparr>ilo = 0, ihi = 1, resamp = [0, 0]\<rparr>"
    by (simp add: initial_window_zero eval_nat_numeral)
  let ?i0 = "\<lparr>ilo = 0, ihi = 1, resamp = [0, 0]\<rparr>"
  obtain v0 where v0: "0 < v0"
    "?body 0 ?i0 = Inr (Next \<lparr>ilo = 1, ihi = 3, resamp = [v0, 0]\<rparr>)"
    using pixel_body_exhausted[of d0 "3.01" "[3.01, 3.012]" 0 "[d0, d1]" ?i0] d0(1) e0
    by (auto simp: getitem_def py_index_def)
  let ?s1 = "\<lparr>ilo = 1, ihi = 3, resamp = [v0, 0]\<rparr>"
  obtain v1 where v1: "0 < v1"
    "?body 1 ?s1 = Inr (Next \<lparr>ilo = 1, ihi = 3, resamp = [v0, v1]\<rparr>)"
    using pixel_body_exhausted[of d1 "3.012" "[3.01, 3.012]" 1 "[d0, d1]" ?s1] d1(1) e1
    by (auto simp: getitem_def py_index_def)
  have rp: "run_pixels ?body [0..<length [3.01, 3.012 :: real]] ?s0
      = Inr \<lparr>ilo = 1, ihi = 3, resamp = [v0, v1]\<rparr>"
    unfolding s0 using v0(2) v1(2) by (simp add: upt_conv_Cons)
  have "resample_template_numba [3.01, 3.012] [1000, 1000] [1, 2, 3] [1, 1, 1] 100 5 (- 1)
      = Inr [v0, v1]"
    by (simp only: resample_template_numba_def kw and_then_simps Let_def rp window.select_convs)
  moreover have "advance_ilo [1, 2, 3] (3.01 - 5 * d0) 0 = 2"
    using e0 by (intro advance_ilo_exhausts) simp_all
  ultimately show ?thesis using v0(1) v1(1) by (simp add: d0_def)
qed

end
